theory Spec2Isabelle
  imports Main
begin

section \<open>Data model\<close>

text \<open>
  Positions are zero-based row/column pairs as delivered by the grammar engine.
\<close>

record Position =
  row :: nat
  column :: nat

text \<open>
  The raw concrete syntax node of the grammar engine (\<^verbatim>\<open>Parser.SyntaxNode\<close>). The engine is
  an external library: a node is given by the values of the accessors the parser reads,
  \<^verbatim>\<open>type\<close>, \<^verbatim>\<open>startPosition\<close>, \<^verbatim>\<open>endPosition\<close>, \<^verbatim>\<open>text\<close>, \<^verbatim>\<open>hasError()\<close> and the
  children. \<^verbatim>\<open>childCount\<close> is the length of the child list and \<^verbatim>\<open>child(i)\<close> its \<open>i\<close>-th
  element, which is present for every \<open>i < childCount\<close>. The answer of \<^verbatim>\<open>hasError()\<close> is
  a parameter of every node: nothing in the repository computes it.
\<close>

datatype SyntaxNode =
  SyntaxNode (ts_type: string) (ts_startPosition: Position) (ts_endPosition: Position)
    (ts_text: string) (ts_hasError: bool) (ts_children: "SyntaxNode list")

text \<open>
  \<^verbatim>\<open>ParsedNode\<close> objects live in a store and are addressed by reference, since \<^verbatim>\<open>parent\<close>
  is a back-reference that is assigned after the object exists. The store is the list of
  all objects allocated so far; a reference is an index into it, and a new object takes
  the next index. An absent \<^verbatim>\<open>parent\<close> is \<open>None\<close>. The field \<^verbatim>\<open>text\<close> is written
  \<open>text'\<close>, since \<open>text\<close> is a keyword here.
\<close>

type_synonym ref = nat

record ParsedNode =
  type :: string
  startPosition :: Position
  endPosition :: Position
  text' :: string
  children :: "ref list"
  parent :: "ref option"

type_synonym heap = "ParsedNode list"

datatype SupportedLanguage = PYTHON | JAVASCRIPT | TYPESCRIPT | JAVA | CSHARP | CPP | GO

datatype Severity = Error | Warning

record ParseError =
  message :: string
  position :: Position
  severity :: Severity

record ParseResult =
  ast :: ref
  language :: SupportedLanguage
  errors :: "ParseError list"
  source :: string

text \<open>
  The entity interfaces. Several of them have fields of the same name, so each record
  prefixes its fields: \<open>p_\<close> for \<^verbatim>\<open>PythonParameter\<close>, \<open>f_\<close> for \<^verbatim>\<open>PythonFunction\<close>,
  \<open>c_\<close> for \<^verbatim>\<open>PythonClass\<close>, \<open>i_\<close> for \<^verbatim>\<open>PythonImport\<close> and \<open>n_\<close> for the entries
  of its \<^verbatim>\<open>names\<close>. A field of type \<^verbatim>\<open>string | null\<close> and an optional field are options.
  The import kinds \<^verbatim>\<open>'import'\<close> and \<^verbatim>\<open>'from'\<close> are \<open>Import\<close> and \<open>From\<close>, the severities
  \<^verbatim>\<open>'error'\<close> and \<^verbatim>\<open>'warning'\<close> are \<open>Error\<close> and \<open>Warning\<close>.
\<close>

record PythonParameter =
  p_name :: string
  p_type :: "string option"
  p_defaultValue :: "string option"

record PythonFunction =
  f_name :: string
  f_parameters :: "PythonParameter list"
  f_body :: string
  f_startLine :: nat
  f_endLine :: nat
  f_isAsync :: bool
  f_decorators :: "string list"

record PythonClass =
  c_name :: string
  c_superclasses :: "string list"
  c_methods :: "PythonFunction list"
  c_startLine :: nat
  c_endLine :: nat
  c_decorators :: "string list"

record ImportName =
  n_name :: string
  n_alias :: "string option"

datatype ImportType = Import | From

record PythonImport =
  i_type :: ImportType
  i_module :: string
  i_names :: "ImportName list"
  i_alias :: "string option"
  i_startLine :: nat

section \<open>Store and language primitives\<close>

definition alloc :: "ParsedNode \<Rightarrow> heap \<Rightarrow> ref \<times> heap" where
  "alloc n h = (length h, h @ [n])"

definition setParent :: "ref \<Rightarrow> ref option \<Rightarrow> heap \<Rightarrow> heap" where
  "setParent c p h = h[c := (h ! c)\<lparr>parent := p\<rparr>]"

text \<open>\<^verbatim>\<open>x?.text || d\<close>: the default for an absent node and for an empty text.\<close>

fun orElse :: "string option \<Rightarrow> string \<Rightarrow> string" where
  "orElse None d = d"
| "orElse (Some s) d = (if s = [] then d else s)"

text \<open>\<^verbatim>\<open>x?.text || null\<close> and \<^verbatim>\<open>x?.text || undefined\<close>.\<close>

fun orNull :: "string option \<Rightarrow> string option" where
  "orNull None = None"
| "orNull (Some s) = (if s = [] then None else Some s)"

text \<open>Array indexing \<^verbatim>\<open>xs[i]\<close>, which is \<^verbatim>\<open>undefined\<close> out of range.\<close>

definition index :: "'a list \<Rightarrow> int \<Rightarrow> 'a option" where
  "index xs i = (if 0 \<le> i \<and> i < int (length xs) then Some (xs ! nat i) else None)"

definition textOf :: "heap \<Rightarrow> ref option \<Rightarrow> string option" where
  "textOf h n = map_option (\<lambda>c. text' (h ! c)) n"

text \<open>\<^verbatim>\<open>node.children.find(child => P child)\<close>\<close>

definition findChild :: "heap \<Rightarrow> ref \<Rightarrow> (ParsedNode \<Rightarrow> bool) \<Rightarrow> ref option" where
  "findChild h node P = List.find (\<lambda>c. P (h ! c)) (children (h ! node))"

text \<open>Decimal rendering of a non-negative integer, as a template literal prints it.\<close>

definition digit :: "nat \<Rightarrow> char" where
  "digit d = ''0123456789'' ! d"

fun showNat :: "nat \<Rightarrow> string" where
  "showNat n = (if n < 10 then [digit n] else showNat (n div 10) @ [digit (n mod 10)])"

declare showNat.simps [simp del]

text \<open>
  A sequential \<^verbatim>\<open>forEach\<close> whose body may fail to return: the first body that does not
  return ends the loop without a result.
\<close>

fun forEachOpt :: "('a \<Rightarrow> 's \<Rightarrow> 's option) \<Rightarrow> 'a list \<Rightarrow> 's \<Rightarrow> 's option" where
  "forEachOpt f [] s = Some s"
| "forEachOpt f (x # xs) s = (case f x s of None \<Rightarrow> None | Some s' \<Rightarrow> forEachOpt f xs s')"

text \<open>
  The one exception the parser can raise: its recursions have no guard, and the runtime
  raises \<^verbatim>\<open>RangeError\<close> when the nesting of calls exceeds the call stack. A sequential loop
  whose body may raise ends at the first body that does.
\<close>

datatype error = RangeError

fun forEachErr :: "('a \<Rightarrow> 's \<Rightarrow> error + 's) \<Rightarrow> 'a list \<Rightarrow> 's \<Rightarrow> error + 's" where
  "forEachErr f [] s = Inr s"
| "forEachErr f (x # xs) s = (case f x s of Inl e \<Rightarrow> Inl e | Inr s' \<Rightarrow> forEachErr f xs s')"

section \<open>The parser\<close>

subsection \<open>convertNode\<close>

text \<open>
  \<open>convertChildren\<close> is the loop over \<^verbatim>\<open>node.child(i)\<close>: it converts each child,
  clears its \<^verbatim>\<open>parent\<close> and pushes it onto \<^verbatim>\<open>children\<close>. The new object is allocated after
  its children, and then every child's \<^verbatim>\<open>parent\<close> is set to it. The parameter \<^verbatim>\<open>source\<close>
  is written \<open>src\<close>.
\<close>

fun convertNode :: "SyntaxNode \<Rightarrow> string \<Rightarrow> heap \<Rightarrow> ref \<times> heap"
  and convertChildren :: "SyntaxNode list \<Rightarrow> string \<Rightarrow> heap \<Rightarrow> ref list \<times> heap" where
  "convertNode (SyntaxNode ty sp ep tx he cs) src h =
     (let startPos = \<lparr>row = row sp, column = column sp\<rparr>;
          endPos = \<lparr>row = row ep, column = column ep\<rparr>;
          (kids, h1) = convertChildren cs src h;
          (parsedNode, h2) =
            alloc \<lparr>type = ty, startPosition = startPos, endPosition = endPos, text' = tx,
                   children = kids, parent = None\<rparr> h1
      in (parsedNode, fold (\<lambda>child. setParent child (Some parsedNode)) kids h2))"
| "convertChildren [] src h = ([], h)"
| "convertChildren (child # rest) src h =
     (let (childNode, h1) = convertNode child src h;
          h2 = setParent childNode None h1;
          (kids, h3) = convertChildren rest src h2
      in (childNode # kids, h3))"

subsection \<open>collectErrors\<close>

definition syntaxError :: "SyntaxNode \<Rightarrow> ParseError" where
  "syntaxError node =
     \<lparr>message = ''Syntax error at '' @ showNat (row (ts_startPosition node)) @ '':''
                 @ showNat (column (ts_startPosition node)),
      position = \<lparr>row = row (ts_startPosition node), column = column (ts_startPosition node)\<rparr>,
      severity = Error\<rparr>"

fun collectErrors :: "SyntaxNode \<Rightarrow> string \<Rightarrow> ParseError list \<Rightarrow> ParseError list" where
  "collectErrors (SyntaxNode ty sp ep tx he cs) src errs =
     (if he then
        fold (\<lambda>child. collectErrors child src) cs
          (if ty = ''ERROR'' then errs @ [syntaxError (SyntaxNode ty sp ep tx he cs)] else errs)
      else errs)"

subsection \<open>The recursions on a bounded call stack\<close>

text \<open>
  \<open>convertNode\<close> and \<open>collectErrors\<close> above give what a run computes when it returns.
  Whether it returns depends on the call stack: each nested call of \<^verbatim>\<open>convertNode\<close> or of
  \<^verbatim>\<open>collectErrors\<close> takes a frame, and nothing in the source bounds the nesting. The
  functions below are the same recursions on a stack with room for \<open>d\<close> nested calls; a
  call for which no frame is left raises \<^verbatim>\<open>RangeError\<close>, which ends the run.
  \<^verbatim>\<open>collectErrors\<close> is called on every child of a flagged node, flagged or not.
\<close>

fun convertNodeWithin :: "nat \<Rightarrow> SyntaxNode \<Rightarrow> string \<Rightarrow> heap \<Rightarrow> error + ref \<times> heap"
  and convertChildrenWithin ::
    "nat \<Rightarrow> SyntaxNode list \<Rightarrow> string \<Rightarrow> heap \<Rightarrow> error + ref list \<times> heap" where
  "convertNodeWithin 0 node src h = Inl RangeError"
| "convertNodeWithin (Suc d) (SyntaxNode ty sp ep tx he cs) src h =
     (case convertChildrenWithin d cs src h of
        Inl e \<Rightarrow> Inl e
      | Inr (kids, h1) \<Rightarrow>
          (let startPos = \<lparr>row = row sp, column = column sp\<rparr>;
               endPos = \<lparr>row = row ep, column = column ep\<rparr>;
               (parsedNode, h2) =
                 alloc \<lparr>type = ty, startPosition = startPos, endPosition = endPos, text' = tx,
                        children = kids, parent = None\<rparr> h1
           in Inr (parsedNode, fold (\<lambda>child. setParent child (Some parsedNode)) kids h2)))"
| "convertChildrenWithin d [] src h = Inr ([], h)"
| "convertChildrenWithin d (child # rest) src h =
     (case convertNodeWithin d child src h of
        Inl e \<Rightarrow> Inl e
      | Inr (childNode, h1) \<Rightarrow>
          (case convertChildrenWithin d rest src (setParent childNode None h1) of
             Inl e \<Rightarrow> Inl e
           | Inr (kids, h3) \<Rightarrow> Inr (childNode # kids, h3)))"

fun collectErrorsWithin ::
  "nat \<Rightarrow> SyntaxNode \<Rightarrow> string \<Rightarrow> ParseError list \<Rightarrow> error + ParseError list" where
  "collectErrorsWithin 0 node src errs = Inl RangeError"
| "collectErrorsWithin (Suc d) (SyntaxNode ty sp ep tx he cs) src errs =
     (if he then
        forEachErr (\<lambda>child e. collectErrorsWithin d child src e) cs
          (if ty = ''ERROR'' then errs @ [syntaxError (SyntaxNode ty sp ep tx he cs)] else errs)
      else Inr errs)"

subsection \<open>parse\<close>

text \<open>
  \<^verbatim>\<open>this.parser.parse\<close> is the grammar engine: a parameter. \<open>stack\<close> is the number of
  nested calls the call stack has room for. The result is the exception raised, or the
  \<^verbatim>\<open>ParseResult\<close> together with the store that holds its tree.
\<close>

definition parse ::
  "(string \<Rightarrow> SyntaxNode) \<Rightarrow> nat \<Rightarrow> string \<Rightarrow> error + ParseResult \<times> heap" where
  "parse parser stack sourceCode =
     (let rootNode = parser sourceCode;
          errs = []
      in case convertNodeWithin stack rootNode sourceCode [] of
           Inl e \<Rightarrow> Inl e
         | Inr (root, h) \<Rightarrow>
             (case (if ts_hasError rootNode
                    then collectErrorsWithin stack rootNode sourceCode errs else Inr errs) of
                Inl e \<Rightarrow> Inl e
              | Inr errs' \<Rightarrow>
                  Inr (\<lparr>ast = root, language = PYTHON, errors = errs', source = sourceCode\<rparr>, h)))"

subsection \<open>findNodesByType\<close>

text \<open>
  The recursive closure \<^verbatim>\<open>traverse\<close> pushes onto \<^verbatim>\<open>results\<close>. On a store whose child
  references form a cycle the recursion never returns; the first argument bounds the depth
  of the recursion, and \<open>None\<close> is the run that exceeds it.
\<close>

fun traverse :: "nat \<Rightarrow> heap \<Rightarrow> string \<Rightarrow> ref \<Rightarrow> ref list \<Rightarrow> ref list option" where
  "traverse 0 h nodeType node results = None"
| "traverse (Suc k) h nodeType node results =
     forEachOpt (\<lambda>c res. traverse k h nodeType c res) (children (h ! node))
       (if type (h ! node) = nodeType then results @ [node] else results)"

definition findNodesByType :: "nat \<Rightarrow> heap \<Rightarrow> ref \<Rightarrow> string \<Rightarrow> ref list option" where
  "findNodesByType k h root nodeType = traverse k h nodeType root []"

subsection \<open>Entity extraction\<close>

definition extractParameters :: "heap \<Rightarrow> ref option \<Rightarrow> PythonParameter list" where
  "extractParameters h parametersNode =
     (case parametersNode of
        None \<Rightarrow> []
      | Some p \<Rightarrow>
          (let paramNodes =
                 filter (\<lambda>c. type (h ! c) = ''identifier'' \<or> type (h ! c) = ''default_parameter''
                              \<or> type (h ! c) = ''typed_parameter'') (children (h ! p))
           in fold (\<lambda>node params.
                 if type (h ! node) = ''identifier'' then
                   params @ [\<lparr>p_name = text' (h ! node), p_type = None, p_defaultValue = None\<rparr>]
                 else if type (h ! node) = ''default_parameter'' then
                   (let nameNode = findChild h node (\<lambda>c. type c = ''identifier'');
                        valueNode = index (children (h ! node))
                                      (int (length (children (h ! node))) - 1)
                    in params @ [\<lparr>p_name = orElse (textOf h nameNode) ''unknown'', p_type = None,
                                   p_defaultValue = orNull (textOf h valueNode)\<rparr>])
                 else if type (h ! node) = ''typed_parameter'' then
                   (let nameNode = findChild h node (\<lambda>c. type c = ''identifier'');
                        typeNode = findChild h node (\<lambda>c. type c = ''type'')
                    in params @ [\<lparr>p_name = orElse (textOf h nameNode) ''unknown'',
                                   p_type = orNull (textOf h typeNode), p_defaultValue = None\<rparr>])
                 else params) paramNodes []))"

text \<open>
  The ascent of \<^verbatim>\<open>extractDecorators\<close>: \<open>current\<close> is the loop variable, \<open>decorators\<close>
  the array being filled. A run that never leaves the loop has no result.
\<close>

partial_function (option) ascend :: "heap \<Rightarrow> ref option \<Rightarrow> string list \<Rightarrow> string list option" where
  "ascend h current decorators =
     (case current of
        None \<Rightarrow> Some decorators
      | Some c \<Rightarrow>
          if type (h ! c) = ''decorated_definition'' then
            (let decoratorNodes = filter (\<lambda>d. type (h ! d) = ''decorator'') (children (h ! c))
             in ascend h (parent (h ! c)) (decorators @ map (\<lambda>d. text' (h ! d)) decoratorNodes))
          else Some decorators)"

definition extractDecorators :: "heap \<Rightarrow> ref \<Rightarrow> string list option" where
  "extractDecorators h node = ascend h (parent (h ! node)) []"

definition extractSuperclasses :: "heap \<Rightarrow> ref option \<Rightarrow> string list" where
  "extractSuperclasses h superclassNode =
     (case superclassNode of
        None \<Rightarrow> []
      | Some s \<Rightarrow>
          map (\<lambda>c. text' (h ! c))
            (filter (\<lambda>c. type (h ! c) = ''identifier'' \<or> type (h ! c) = ''attribute'')
               (children (h ! s))))"

text \<open>The callback of \<^verbatim>\<open>functionNodes.map\<close> in \<^verbatim>\<open>extractFunctions\<close>.\<close>

definition functionOf :: "heap \<Rightarrow> ref \<Rightarrow> PythonFunction option" where
  "functionOf h node =
     (let nameNode = findChild h node (\<lambda>c. type c = ''identifier'');
          parametersNode = findChild h node (\<lambda>c. type c = ''parameters'');
          bodyNode = findChild h node (\<lambda>c. type c = ''block'')
      in map_option (\<lambda>decs.
           \<lparr>f_name = orElse (textOf h nameNode) ''unknown'',
            f_parameters = extractParameters h parametersNode,
            f_body = orElse (textOf h bodyNode) '''',
            f_startLine = row (startPosition (h ! node)),
            f_endLine = row (endPosition (h ! node)),
            f_isAsync = list_ex (\<lambda>c. text' (h ! c) = ''async'') (children (h ! node)),
            f_decorators = decs\<rparr>) (extractDecorators h node))"

definition extractFunctions :: "nat \<Rightarrow> heap \<Rightarrow> ref \<Rightarrow> PythonFunction list option" where
  "extractFunctions k h root =
     (case findNodesByType k h root ''function_definition'' of
        None \<Rightarrow> None
      | Some functionNodes \<Rightarrow> those (map (functionOf h) functionNodes))"

text \<open>The callback of \<^verbatim>\<open>functionNodes.map\<close> in \<^verbatim>\<open>extractMethods\<close>.\<close>

definition methodOf :: "heap \<Rightarrow> ref \<Rightarrow> PythonFunction option" where
  "methodOf h node =
     (let nameNode = findChild h node (\<lambda>c. type c = ''identifier'');
          parametersNode = findChild h node (\<lambda>c. type c = ''parameters'')
      in map_option (\<lambda>decs.
           \<lparr>f_name = orElse (textOf h nameNode) ''unknown'',
            f_parameters = extractParameters h parametersNode,
            f_body = text' (h ! node),
            f_startLine = row (startPosition (h ! node)),
            f_endLine = row (endPosition (h ! node)),
            f_isAsync = list_ex (\<lambda>c. text' (h ! c) = ''async'') (children (h ! node)),
            f_decorators = decs\<rparr>) (extractDecorators h node))"

definition extractMethods :: "nat \<Rightarrow> heap \<Rightarrow> ref option \<Rightarrow> PythonFunction list option" where
  "extractMethods k h bodyNode =
     (case bodyNode of
        None \<Rightarrow> Some []
      | Some b \<Rightarrow>
          (case findNodesByType k h b ''function_definition'' of
             None \<Rightarrow> None
           | Some functionNodes \<Rightarrow> those (map (methodOf h) functionNodes)))"

text \<open>The callback of \<^verbatim>\<open>classNodes.map\<close> in \<^verbatim>\<open>extractClasses\<close>.\<close>

definition classOf :: "nat \<Rightarrow> heap \<Rightarrow> ref \<Rightarrow> PythonClass option" where
  "classOf k h node =
     (let nameNode = findChild h node (\<lambda>c. type c = ''identifier'');
          bodyNode = findChild h node (\<lambda>c. type c = ''block'');
          superclassNode = findChild h node (\<lambda>c. type c = ''argument_list'')
      in case extractMethods k h bodyNode of
           None \<Rightarrow> None
         | Some methods \<Rightarrow>
             map_option (\<lambda>decs.
               \<lparr>c_name = orElse (textOf h nameNode) ''unknown'',
                c_superclasses = extractSuperclasses h superclassNode,
                c_methods = methods,
                c_startLine = row (startPosition (h ! node)),
                c_endLine = row (endPosition (h ! node)),
                c_decorators = decs\<rparr>) (extractDecorators h node))"

definition extractClasses :: "nat \<Rightarrow> heap \<Rightarrow> ref \<Rightarrow> PythonClass list option" where
  "extractClasses k h root =
     (case findNodesByType k h root ''class_definition'' of
        None \<Rightarrow> None
      | Some classNodes \<Rightarrow> those (map (classOf k h) classNodes))"

definition extractImportNames :: "heap \<Rightarrow> ref option \<Rightarrow> ImportName list" where
  "extractImportNames h importListNode =
     (case importListNode of
        None \<Rightarrow> []
      | Some l \<Rightarrow>
          fold (\<lambda>child names.
            if type (h ! child) = ''identifier'' then
              names @ [\<lparr>n_name = text' (h ! child), n_alias = None\<rparr>]
            else if type (h ! child) = ''aliased_import'' then
              (let nameNode = index (children (h ! child)) 0;
                   aliasNode = index (children (h ! child)) 2
               in names @ [\<lparr>n_name = orElse (textOf h nameNode) '''',
                             n_alias = orNull (textOf h aliasNode)\<rparr>])
            else names) (children (h ! l)) [])"

text \<open>The callback of \<^verbatim>\<open>importNodes.map\<close> in \<^verbatim>\<open>extractImports\<close>.\<close>

definition importOf :: "heap \<Rightarrow> ref \<Rightarrow> PythonImport" where
  "importOf h node =
     (let isFromImport = (type (h ! node) = ''import_from_statement'')
      in if isFromImport then
           (let moduleNode = findChild h node
                  (\<lambda>c. type c = ''dotted_name'' \<or> type c = ''relative_import'');
                importListNode = findChild h node (\<lambda>c. type c = ''import_list'')
            in \<lparr>i_type = From, i_module = orElse (textOf h moduleNode) '''',
                i_names = extractImportNames h importListNode, i_alias = None,
                i_startLine = row (startPosition (h ! node))\<rparr>)
         else
           (let importListNode = findChild h node (\<lambda>c. type c = ''import_list'');
                names = extractImportNames h importListNode
            in \<lparr>i_type = Import,
                i_module = orElse (map_option n_name (index names 0)) '''',
                i_names = names,
                i_alias = orNull (Option.bind (index names 0) n_alias),
                i_startLine = row (startPosition (h ! node))\<rparr>))"

definition extractImports :: "nat \<Rightarrow> heap \<Rightarrow> ref \<Rightarrow> PythonImport list option" where
  "extractImports k h root =
     (case findNodesByType k h root ''import_statement'' of
        None \<Rightarrow> None
      | Some directNodes \<Rightarrow>
          (case findNodesByType k h root ''import_from_statement'' of
             None \<Rightarrow> None
           | Some fromNodes \<Rightarrow> Some (map (importOf h) (directNodes @ fromNodes))))"

section \<open>Notions used to state the properties\<close>

subsection \<open>Raw trees\<close>

fun countNodes :: "SyntaxNode \<Rightarrow> nat" where
  "countNodes (SyntaxNode ty sp ep tx he cs) = Suc (sum_list (map countNodes cs))"

text \<open>The nodes of a raw tree in pre-order.\<close>

fun rawNodes :: "SyntaxNode \<Rightarrow> SyntaxNode list" where
  "rawNodes (SyntaxNode ty sp ep tx he cs) =
     SyntaxNode ty sp ep tx he cs # concat (map rawNodes cs)"

text \<open>The nesting depth of a raw tree: the number of nodes on its longest branch.\<close>

fun depth :: "SyntaxNode \<Rightarrow> nat" and depthList :: "SyntaxNode list \<Rightarrow> nat" where
  "depth (SyntaxNode ty sp ep tx he cs) = Suc (depthList cs)"
| "depthList [] = 0"
| "depthList (c # cs) = max (depth c) (depthList cs)"

definition rawView :: "SyntaxNode \<Rightarrow> string \<times> Position \<times> Position \<times> string" where
  "rawView n = (ts_type n, ts_startPosition n, ts_endPosition n, ts_text n)"

subsection \<open>Normalized trees in the store\<close>

definition view :: "ParsedNode \<Rightarrow> string \<times> Position \<times> Position \<times> string" where
  "view n = (type n, startPosition n, endPosition n, text' n)"

text \<open>
  The pre-order traversal of the tree below a reference, following \<^verbatim>\<open>children\<close>. It has
  the recursion of \<^verbatim>\<open>traverse\<close> without the test on the kind, and the same bound on the
  depth of the recursion.
\<close>

fun preorder :: "nat \<Rightarrow> heap \<Rightarrow> ref \<Rightarrow> ref list \<Rightarrow> ref list option" where
  "preorder 0 h node visited = None"
| "preorder (Suc k) h node visited =
     forEachOpt (\<lambda>c res. preorder k h c res) (children (h ! node)) (visited @ [node])"

text \<open>\<open>ancestor h a n\<close>: \<open>a\<close> is reached from \<open>n\<close> by one or more \<^verbatim>\<open>parent\<close> steps.\<close>

inductive ancestor :: "heap \<Rightarrow> ref \<Rightarrow> ref \<Rightarrow> bool" for h :: heap where
  direct: "parent (h ! n) = Some p \<Longrightarrow> ancestor h p n"
| further: "parent (h ! n) = Some p \<Longrightarrow> ancestor h a p \<Longrightarrow> ancestor h a n"

subsection \<open>The store that convertNode builds, in closed form\<close>

text \<open>
  Objects are allocated children first, so the tree of a raw node with \<open>c\<close> nodes that is
  built on a store of size \<open>b\<close> takes the references \<open>b, \<dots>, b + c - 1\<close>, its root the
  last one. \<open>layout b p raw\<close> is that part of the store once the root's \<^verbatim>\<open>parent\<close> is
  \<open>p\<close>; \<open>roots b cs\<close> are the references of the roots of consecutive trees, and
  \<open>addrs b raw\<close> lists the references in pre-order.
\<close>

fun roots :: "nat \<Rightarrow> SyntaxNode list \<Rightarrow> ref list" where
  "roots b [] = []"
| "roots b (c # cs) = (b + countNodes c - 1) # roots (b + countNodes c) cs"

fun layout :: "nat \<Rightarrow> ref option \<Rightarrow> SyntaxNode \<Rightarrow> heap"
  and layoutList :: "nat \<Rightarrow> ref option \<Rightarrow> SyntaxNode list \<Rightarrow> heap" where
  "layout b p (SyntaxNode ty sp ep tx he cs) =
     layoutList b (Some (b + sum_list (map countNodes cs))) cs
       @ [\<lparr>type = ty, startPosition = sp, endPosition = ep, text' = tx,
            children = roots b cs, parent = p\<rparr>]"
| "layoutList b p [] = []"
| "layoutList b p (c # cs) = layout b p c @ layoutList (b + countNodes c) p cs"

fun addrs :: "nat \<Rightarrow> SyntaxNode \<Rightarrow> ref list"
  and addrsList :: "nat \<Rightarrow> SyntaxNode list \<Rightarrow> ref list" where
  "addrs b (SyntaxNode ty sp ep tx he cs) = (b + sum_list (map countNodes cs)) # addrsList b cs"
| "addrsList b [] = []"
| "addrsList b (c # cs) = addrs b c @ addrsList (b + countNodes c) cs"

text \<open>\<open>seg H b xs\<close>: the store \<open>H\<close> holds the cells \<open>xs\<close> from reference \<open>b\<close> on.\<close>

definition seg :: "heap \<Rightarrow> nat \<Rightarrow> heap \<Rightarrow> bool" where
  "seg H b xs = (b + length xs \<le> length H \<and> (\<forall>i<length xs. H ! (b + i) = xs ! i))"

subsection \<open>Decorators\<close>

text \<open>The texts of the decorator children of a wrapper, in child order.\<close>

definition decoratorTexts :: "heap \<Rightarrow> ref \<Rightarrow> string list" where
  "decoratorTexts h w =
     map (\<lambda>d. text' (h ! d)) (filter (\<lambda>d. type (h ! d) = ''decorator'') (children (h ! w)))"

text \<open>
  \<open>wrapperChain h cur ws\<close>: starting at \<open>cur\<close> and following \<^verbatim>\<open>parent\<close>, the nodes \<open>ws\<close>
  are wrapper nodes (kind \<^verbatim>\<open>decorated_definition\<close>), and what follows the last of them is
  absent or is not a wrapper.
\<close>

fun wrapperChain :: "heap \<Rightarrow> ref option \<Rightarrow> ref list \<Rightarrow> bool" where
  "wrapperChain h cur [] =
     (case cur of None \<Rightarrow> True | Some c \<Rightarrow> type (h ! c) \<noteq> ''decorated_definition'')"
| "wrapperChain h cur (w # ws) =
     (cur = Some w \<and> type (h ! w) = ''decorated_definition'' \<and> wrapperChain h (parent (h ! w)) ws)"

subsection \<open>Syntax errors\<close>

definition isErrorNode :: "SyntaxNode \<Rightarrow> bool" where
  "isErrorNode n = (ts_type n = ''ERROR'')"

text \<open>
  \<open>withAncestors anc n\<close> lists the nodes of the tree \<open>n\<close> in pre-order, each with its
  ancestors, outermost first; \<open>anc\<close> are the ancestors of \<open>n\<close> itself.
\<close>

fun withAncestors :: "SyntaxNode list \<Rightarrow> SyntaxNode \<Rightarrow> (SyntaxNode list \<times> SyntaxNode) list" where
  "withAncestors anc (SyntaxNode ty sp ep tx he cs) =
     (anc, SyntaxNode ty sp ep tx he cs)
       # concat (map (withAncestors (anc @ [SyntaxNode ty sp ep tx he cs])) cs)"

text \<open>
  The nodes of kind \<^verbatim>\<open>ERROR\<close> of a tree that are flagged and have only flagged
  ancestors in the tree, in pre-order.
\<close>

definition flaggedErrorNodes :: "SyntaxNode \<Rightarrow> SyntaxNode list" where
  "flaggedErrorNodes root =
     map snd (filter (\<lambda>(anc, n). isErrorNode n \<and> ts_hasError n \<and> list_all ts_hasError anc)
                (withAncestors [] root))"

text \<open>
  The same nodes as a walk: it takes a flagged node if its kind is \<^verbatim>\<open>ERROR\<close>, goes on
  into all its children, and stops at a node that is not flagged.
\<close>

fun reported :: "SyntaxNode \<Rightarrow> SyntaxNode list" where
  "reported (SyntaxNode ty sp ep tx he cs) =
     (if he then
        (if ty = ''ERROR'' then [SyntaxNode ty sp ep tx he cs] else []) @ concat (map reported cs)
      else [])"

subsection \<open>Parameters\<close>



subsection \<open>Import statements\<close>

definition isDirectImport :: "heap \<Rightarrow> ref \<Rightarrow> bool" where
  "isDirectImport h n = (type (h ! n) = ''import_statement'')"

definition isFromImport :: "heap \<Rightarrow> ref \<Rightarrow> bool" where
  "isFromImport h n = (type (h ! n) = ''import_from_statement'')"

section \<open>Example inputs\<close>

text \<open>Shorthands for writing raw trees.\<close>

definition pos :: "nat \<Rightarrow> nat \<Rightarrow> Position" where
  "pos r c = \<lparr>row = r, column = c\<rparr>"

definition leaf :: "string \<Rightarrow> Position \<Rightarrow> Position \<Rightarrow> string \<Rightarrow> SyntaxNode" where
  "leaf ty sp ep tx = SyntaxNode ty sp ep tx False []"

text \<open>
  A function below two nested wrapper nodes, each with one decorator, and the store that
  \<^verbatim>\<open>convertNode\<close> builds for it.
\<close>

definition nestedDecorated :: SyntaxNode where
  "nestedDecorated =
     SyntaxNode ''module'' (pos 0 0) (pos 2 14) ''@a @b def f(): pass'' False
      [SyntaxNode ''decorated_definition'' (pos 0 0) (pos 2 14) ''@a @b def f(): pass'' False
        [leaf ''decorator'' (pos 0 0) (pos 0 2) ''@a'',
         SyntaxNode ''decorated_definition'' (pos 1 0) (pos 2 14) ''@b def f(): pass'' False
          [leaf ''decorator'' (pos 1 0) (pos 1 2) ''@b'',
           SyntaxNode ''function_definition'' (pos 2 0) (pos 2 14) ''def f(): pass'' False
            [leaf ''def'' (pos 2 0) (pos 2 3) ''def'',
             leaf ''identifier'' (pos 2 4) (pos 2 5) ''f'',
             leaf ''parameters'' (pos 2 5) (pos 2 7) ''()'',
             leaf '':'' (pos 2 7) (pos 2 8) '':'',
             leaf ''block'' (pos 2 10) (pos 2 14) ''pass'']]]]"

definition nestedStore :: heap where
  "nestedStore = snd (convertNode nestedDecorated '''' [])"

text \<open>A store whose only object is a wrapper that is its own \<^verbatim>\<open>parent\<close>.\<close>

definition selfParent :: heap where
  "selfParent =
     [\<lparr>type = ''decorated_definition'', startPosition = pos 0 0, endPosition = pos 0 0,
       text' = '''', children = [], parent = Some 0\<rparr>]"

text \<open>
  Raw trees with error nodes. \<open>brokenCall\<close> has two flagged nodes of kind \<^verbatim>\<open>ERROR\<close>
  below a flagged root. \<open>unflaggedLeaf\<close> has a flagged node of kind \<^verbatim>\<open>ERROR\<close> with a
  child of kind \<^verbatim>\<open>ERROR\<close> whose flag is off.
\<close>

definition brokenCall :: SyntaxNode where
  "brokenCall =
     SyntaxNode ''module'' (pos 0 0) (pos 1 15)
       (''x = ('' @ [CHR 0x0A] @ ''y           = )'') True
      [SyntaxNode ''ERROR'' (pos 0 0) (pos 0 5) ''x = ('' True
        [leaf ''identifier'' (pos 0 0) (pos 0 1) ''x'',
         leaf ''='' (pos 0 2) (pos 0 3) ''='',
         leaf ''('' (pos 0 4) (pos 0 5) ''(''],
       SyntaxNode ''expression_statement'' (pos 1 0) (pos 1 1) ''y'' False
        [leaf ''identifier'' (pos 1 0) (pos 1 1) ''y''],
       SyntaxNode ''ERROR'' (pos 1 12) (pos 1 15) ''= )'' True
        [leaf ''='' (pos 1 12) (pos 1 13) ''='',
         leaf '')'' (pos 1 14) (pos 1 15) '')'']]"

definition unflaggedLeaf :: SyntaxNode where
  "unflaggedLeaf =
     SyntaxNode ''module'' (pos 0 0) (pos 0 5) ''a ? b'' True
      [SyntaxNode ''ERROR'' (pos 0 0) (pos 0 3) ''a ?'' True
        [leaf ''identifier'' (pos 0 0) (pos 0 1) ''a'',
         leaf ''ERROR'' (pos 0 2) (pos 0 3) ''?''],
       SyntaxNode ''expression_statement'' (pos 0 4) (pos 0 5) ''b'' False
        [leaf ''identifier'' (pos 0 4) (pos 0 5) ''b'']]"

text \<open>
  \<open>nested n c\<close>: a flagged node of kind \<^verbatim>\<open>ERROR\<close> inside \<open>n\<close> flagged parenthesized
  expressions, starting at column \<open>c\<close>. Its nesting depth is \<open>n + 2\<close>.
\<close>

fun nested :: "nat \<Rightarrow> nat \<Rightarrow> SyntaxNode" where
  "nested 0 c =
     SyntaxNode ''ERROR'' (pos 0 c) (pos 0 (c + 1)) ''?'' True
      [leaf ''ERROR'' (pos 0 c) (pos 0 (c + 1)) ''?'']"
| "nested (Suc n) c =
     SyntaxNode ''parenthesized_expression'' (pos 0 c)
       (pos 0 (c + length (ts_text (nested n (c + 1))) + 2))
       (''('' @ ts_text (nested n (c + 1)) @ '')'') True
      [leaf ''('' (pos 0 c) (pos 0 (c + 1)) ''('',
       nested n (c + 1),
       leaf '')'' (pos 0 (c + length (ts_text (nested n (c + 1))) + 1))
         (pos 0 (c + length (ts_text (nested n (c + 1))) + 2)) '')'']"



text \<open>
  A file with a \<^verbatim>\<open>from\<close> import on line 0 and a direct import on line 1, both with an
  \<^verbatim>\<open>import_list\<close> child, and the two entities extracted from it.
\<close>

definition importsTree :: SyntaxNode where
  "importsTree =
     SyntaxNode ''module'' (pos 0 0) (pos 1 22)
       (''from pkg import a as b, c'' @ [CHR 0x0A] @ ''import one as uno, two'') False
      [SyntaxNode ''import_from_statement'' (pos 0 0) (pos 0 25) ''from pkg import a as b, c'' False
        [leaf ''from'' (pos 0 0) (pos 0 4) ''from'',
         SyntaxNode ''dotted_name'' (pos 0 5) (pos 0 8) ''pkg'' False
          [leaf ''identifier'' (pos 0 5) (pos 0 8) ''pkg''],
         leaf ''import'' (pos 0 9) (pos 0 15) ''import'',
         SyntaxNode ''import_list'' (pos 0 16) (pos 0 25) ''a as b, c'' False
          [SyntaxNode ''aliased_import'' (pos 0 16) (pos 0 22) ''a as b'' False
            [leaf ''identifier'' (pos 0 16) (pos 0 17) ''a'',
             leaf ''as'' (pos 0 18) (pos 0 20) ''as'',
             leaf ''identifier'' (pos 0 21) (pos 0 22) ''b''],
           leaf '','' (pos 0 22) (pos 0 23) '','',
           leaf ''identifier'' (pos 0 24) (pos 0 25) ''c'']],
       SyntaxNode ''import_statement'' (pos 1 0) (pos 1 22) ''import one as uno, two'' False
        [leaf ''import'' (pos 1 0) (pos 1 6) ''import'',
         SyntaxNode ''import_list'' (pos 1 7) (pos 1 22) ''one as uno, two'' False
          [SyntaxNode ''aliased_import'' (pos 1 7) (pos 1 17) ''one as uno'' False
            [leaf ''identifier'' (pos 1 7) (pos 1 10) ''one'',
             leaf ''as'' (pos 1 11) (pos 1 13) ''as'',
             leaf ''identifier'' (pos 1 14) (pos 1 17) ''uno''],
           leaf '','' (pos 1 17) (pos 1 18) '','',
           leaf ''identifier'' (pos 1 19) (pos 1 22) ''two'']]]"

definition importsStore :: heap where
  "importsStore = snd (convertNode importsTree '''' [])"

definition importOne :: PythonImport where
  "importOne =
     \<lparr>i_type = Import, i_module = ''one'',
      i_names = [\<lparr>n_name = ''one'', n_alias = Some ''uno''\<rparr>, \<lparr>n_name = ''two'', n_alias = None\<rparr>],
      i_alias = Some ''uno'', i_startLine = 1\<rparr>"

definition fromPkg :: PythonImport where
  "fromPkg =
     \<lparr>i_type = From, i_module = ''pkg'',
      i_names = [\<lparr>n_name = ''a'', n_alias = Some ''b''\<rparr>, \<lparr>n_name = ''c'', n_alias = None\<rparr>],
      i_alias = None, i_startLine = 0\<rparr>"

text \<open>A class with one method.\<close>

definition classTree :: SyntaxNode where
  "classTree =
     SyntaxNode ''module'' (pos 0 0) (pos 1 19) (''class A:'' @ [CHR 0x0A] @ ''  def m(self): pass'') False
      [SyntaxNode ''class_definition'' (pos 0 0) (pos 1 19)
          (''class A:'' @ [CHR 0x0A] @ ''  def m(self): pass'') False
        [leaf ''class'' (pos 0 0) (pos 0 5) ''class'',
         leaf ''identifier'' (pos 0 6) (pos 0 7) ''A'',
         leaf '':'' (pos 0 7) (pos 0 8) '':'',
         SyntaxNode ''block'' (pos 1 2) (pos 1 19) ''def m(self): pass'' False
          [SyntaxNode ''function_definition'' (pos 1 2) (pos 1 19) ''def m(self): pass'' False
            [leaf ''def'' (pos 1 2) (pos 1 5) ''def'',
             leaf ''identifier'' (pos 1 6) (pos 1 7) ''m'',
             SyntaxNode ''parameters'' (pos 1 7) (pos 1 13) ''(self)'' False
              [leaf ''('' (pos 1 7) (pos 1 8) ''('',
               leaf ''identifier'' (pos 1 8) (pos 1 12) ''self'',
               leaf '')'' (pos 1 12) (pos 1 13) '')''],
             leaf '':'' (pos 1 13) (pos 1 14) '':'',
             SyntaxNode ''block'' (pos 1 15) (pos 1 19) ''pass'' False
              [SyntaxNode ''pass_statement'' (pos 1 15) (pos 1 19) ''pass'' False
                [leaf ''pass'' (pos 1 15) (pos 1 19) ''pass'']]]]]]"

definition classStore :: heap where
  "classStore = snd (convertNode classTree '''' [])"

section \<open>The store built by convertNode\<close>

lemma Position_eta [simp]: "\<lparr>row = row p, column = column p\<rparr> = (p::Position)"
  by (cases p) simp

lemma countNodes_pos: "0 < countNodes raw"
  by (cases raw) simp

lemma length_layout:
  "length (layout b p raw) = countNodes raw"
  "length (layoutList b p cs) = sum_list (map countNodes cs)"
  by (induction b p raw and b p cs rule: layout_layoutList.induct) simp_all

lemma setParent_root:
  "setParent (length h + countNodes raw - 1) q (h @ layout (length h) p raw @ t)
     = h @ layout (length h) q raw @ t"
proof (cases raw)
  case (SyntaxNode ty sp ep tx he cs)
  let ?xs = "layoutList (length h) (Some (length h + sum_list (map countNodes cs))) cs"
  have len: "length ?xs = sum_list (map countNodes cs)" by (simp add: length_layout)
  have "(h @ ?xs @ c # t) ! (length h + length ?xs) = c" for c
    by (metis append.assoc length_append nth_append_length)
  moreover have "(h @ ?xs @ c # t)[length h + length ?xs := d] = h @ ?xs @ d # t" for c d
    by (metis append.assoc length_append list_update_length)
  ultimately show ?thesis
    using SyntaxNode len by (simp add: setParent_def)
qed

lemma fold_setParent_roots:
  "fold (\<lambda>child. setParent child q) (roots (length h) cs) (h @ layoutList (length h) p cs @ t)
     = h @ layoutList (length h) q cs @ t"
proof (induction cs arbitrary: h)
  case Nil
  then show ?case by simp
next
  case (Cons c cs)
  have "setParent (length h + countNodes c - 1) q
          (h @ layout (length h) p c @ layoutList (length h + countNodes c) p cs @ t)
        = h @ layout (length h) q c @ layoutList (length h + countNodes c) p cs @ t"
    by (rule setParent_root)
  moreover have "fold (\<lambda>child. setParent child q) (roots (length (h @ layout (length h) q c)) cs)
      ((h @ layout (length h) q c) @ layoutList (length (h @ layout (length h) q c)) p cs @ t)
     = (h @ layout (length h) q c) @ layoutList (length (h @ layout (length h) q c)) q cs @ t"
    by (rule Cons.IH)
  ultimately show ?case by (simp add: length_layout)
qed

lemma convert_layout:
  "convertNode raw src h = (length h + countNodes raw - 1, h @ layout (length h) None raw)"
  "convertChildren cs src h = (roots (length h) cs, h @ layoutList (length h) None cs)"
proof (induction raw src h and cs src h rule: convertNode_convertChildren.induct)
  case (1 ty sp ep tx he cs src h)
  let ?r = "length h + sum_list (map countNodes cs)"
  let ?cell = "\<lparr>type = ty, startPosition = sp, endPosition = ep, text' = tx,
                 children = roots (length h) cs, parent = None\<rparr>"
  have "fold (\<lambda>child. setParent child (Some ?r)) (roots (length h) cs)
          (h @ layoutList (length h) None cs @ [?cell])
        = h @ layoutList (length h) (Some ?r) cs @ [?cell]"
    by (rule fold_setParent_roots)
  with 1 show ?case by (simp add: alloc_def length_layout)
next
  case (2 src h)
  then show ?case by simp
next
  case (3 child rest src h)
  have sp: "setParent (length h + countNodes child - 1) None (h @ layout (length h) None child @ [])
     = h @ layout (length h) None child @ []"
    by (rule setParent_root)
  have pos: "0 < countNodes child" by (rule countNodes_pos)
  show ?case using 3 sp pos by (simp add: length_layout)
qed

lemma seg_append:
  "seg H b (xs @ ys) = (seg H b xs \<and> seg H (b + length xs) ys)"
proof
  assume a: "seg H b (xs @ ys)"
  have "H ! (b + i) = xs ! i" if "i < length xs" for i
    using a that unfolding seg_def by (metis length_append nth_append trans_less_add1)
  moreover have "H ! (b + length xs + i) = ys ! i" if "i < length ys" for i
  proof -
    have "length xs + i < length (xs @ ys)" using that by simp
    then have "H ! (b + (length xs + i)) = (xs @ ys) ! (length xs + i)"
      using a unfolding seg_def by blast
    then show ?thesis by (simp add: add.assoc)
  qed
  ultimately show "seg H b xs \<and> seg H (b + length xs) ys"
    using a unfolding seg_def by simp
next
  assume a: "seg H b xs \<and> seg H (b + length xs) ys"
  have "H ! (b + i) = (xs @ ys) ! i" if "i < length (xs @ ys)" for i
  proof (cases "i < length xs")
    case True
    then show ?thesis using a unfolding seg_def by (simp add: nth_append)
  next
    case False
    then have "i - length xs < length ys" using that by simp
    then have "H ! (b + length xs + (i - length xs)) = ys ! (i - length xs)"
      using a unfolding seg_def by blast
    then show ?thesis using False by (simp add: nth_append)
  qed
  then show "seg H b (xs @ ys)" using a unfolding seg_def by simp
qed

lemma seg_single: "seg H b [c] = (b < length H \<and> H ! b = c)"
  unfolding seg_def by auto

lemma seg_self: "seg (h @ xs) (length h) xs"
  unfolding seg_def by (simp add: nth_append)

lemma seg_root:
  assumes "seg H b (layout b p raw)"
  shows "b + countNodes raw \<le> length H"
    and "type (H ! (b + countNodes raw - 1)) = ts_type raw"
    and "startPosition (H ! (b + countNodes raw - 1)) = ts_startPosition raw"
    and "endPosition (H ! (b + countNodes raw - 1)) = ts_endPosition raw"
    and "text' (H ! (b + countNodes raw - 1)) = ts_text raw"
    and "children (H ! (b + countNodes raw - 1)) = roots b (ts_children raw)"
    and "parent (H ! (b + countNodes raw - 1)) = p"
    and "seg H b (layoutList b (Some (b + countNodes raw - 1)) (ts_children raw))"
  using assms by (cases raw; simp add: seg_append seg_single length_layout)+

lemma roots_range: "n \<in> set (roots b cs) \<Longrightarrow> b \<le> n \<and> n < b + sum_list (map countNodes cs)"
proof (induction cs arbitrary: b)
  case Nil
  then show ?case by simp
next
  case (Cons c cs)
  have "0 < countNodes c" by (rule countNodes_pos)
  with Cons show ?case by fastforce
qed

lemma parent_layout:
  "seg H b (layout b p raw) \<Longrightarrow> b \<le> n \<Longrightarrow> n < b + countNodes raw \<Longrightarrow>
     (n = b + countNodes raw - 1 \<and> parent (H ! n) = p)
     \<or> (\<exists>q. parent (H ! n) = Some q \<and> n < q \<and> q < b + countNodes raw \<and> n \<in> set (children (H ! q)))"
  "seg H b (layoutList b p cs) \<Longrightarrow> b \<le> n \<Longrightarrow> n < b + sum_list (map countNodes cs) \<Longrightarrow>
     (n \<in> set (roots b cs) \<and> parent (H ! n) = p)
     \<or> (\<exists>q. parent (H ! n) = Some q \<and> n < q \<and> q < b + sum_list (map countNodes cs)
            \<and> n \<in> set (children (H ! q)))"
proof (induction b p raw and b p cs arbitrary: n and n rule: layout_layoutList.induct)
  case (1 b p ty sp ep tx he cs)
  let ?r = "b + sum_list (map countNodes cs)"
  from "1.prems"(1) have s: "seg H b (layoutList b (Some ?r) cs)"
    and c: "children (H ! ?r) = roots b cs" and pr: "parent (H ! ?r) = p"
    by (simp_all add: seg_append seg_single length_layout)
  show ?case
  proof (cases "n = ?r")
    case True
    then show ?thesis using pr by simp
  next
    case False
    then have "n < ?r" using "1.prems" by simp
    from "1.IH"[OF s "1.prems"(2) this] show ?thesis
      using c \<open>n < ?r\<close> by auto
  qed
next
  case (2 b p)
  then show ?case by simp
next
  case (3 b p c cs)
  from "3.prems"(1) have s1: "seg H b (layout b p c)"
    and s2: "seg H (b + countNodes c) (layoutList (b + countNodes c) p cs)"
    by (simp_all add: seg_append length_layout)
  have pos: "0 < countNodes c" by (rule countNodes_pos)
  show ?case
  proof (cases "n < b + countNodes c")
    case True
    from "3.IH"(1)[OF s1 "3.prems"(2) True] show ?thesis by auto
  next
    case False
    then have lb: "b + countNodes c \<le> n" by simp
    have ub: "n < b + countNodes c + sum_list (map countNodes cs)"
      using "3.prems"(3) by simp
    from "3.IH"(2)[OF s2 lb ub] show ?thesis
      by (auto simp: add.assoc)
  qed
qed

lemma length_addrs:
  "length (addrs b raw) = countNodes raw"
  "length (addrsList b cs) = sum_list (map countNodes cs)"
  by (induction b raw and b cs rule: addrs_addrsList.induct) simp_all

lemma set_addrs:
  "set (addrs b raw) = {b..<b + countNodes raw}"
  "set (addrsList b cs) = {b..<b + sum_list (map countNodes cs)}"
  by (induction b raw and b cs rule: addrs_addrsList.induct) auto

lemma distinct_addrs:
  "distinct (addrs b raw)"
  "distinct (addrsList b cs)"
  by (induction b raw and b cs rule: addrs_addrsList.induct) (auto simp: set_addrs)

lemma length_rawNodes: "length (rawNodes raw) = countNodes raw"
  by (induction raw) (simp add: length_concat comp_def cong: map_cong)

lemma preorder_layout:
  "seg H b (layout b p raw) \<Longrightarrow> countNodes raw \<le> k \<Longrightarrow>
     preorder k H (b + countNodes raw - 1) acc = Some (acc @ addrs b raw)"
  "seg H b (layoutList b p cs) \<Longrightarrow> sum_list (map countNodes cs) \<le> k \<Longrightarrow>
     forEachOpt (\<lambda>c res. preorder k H c res) (roots b cs) acc = Some (acc @ addrsList b cs)"
proof (induction b p raw and b p cs arbitrary: k acc and k acc rule: layout_layoutList.induct)
  case (1 b p ty sp ep tx he cs)
  let ?r = "b + sum_list (map countNodes cs)"
  from "1.prems"(1) have s: "seg H b (layoutList b (Some ?r) cs)"
    and c: "children (H ! ?r) = roots b cs"
    by (simp_all add: seg_append seg_single length_layout)
  from "1.prems"(2) obtain k' where k: "k = Suc k'" and le: "sum_list (map countNodes cs) \<le> k'"
    by (cases k) simp_all
  from "1.IH"[OF s le] show ?case using k c by simp
next
  case (2 b p)
  then show ?case by simp
next
  case (3 b p c cs)
  from "3.prems"(1) have s1: "seg H b (layout b p c)"
    and s2: "seg H (b + countNodes c) (layoutList (b + countNodes c) p cs)"
    by (simp_all add: seg_append length_layout)
  have le1: "countNodes c \<le> k" and le2: "sum_list (map countNodes cs) \<le> k"
    using "3.prems"(2) by simp_all
  show ?case
    using "3.IH"(1)[OF s1 le1, of acc] "3.IH"(2)[OF s2 le2, of "acc @ addrs b c"] by simp
qed

lemma view_layout:
  "seg H b (layout b p raw) \<Longrightarrow>
     map (\<lambda>a. view (H ! a)) (addrs b raw) = map rawView (rawNodes raw)"
  "seg H b (layoutList b p cs) \<Longrightarrow>
     map (\<lambda>a. view (H ! a)) (addrsList b cs) = map rawView (concat (map rawNodes cs))"
proof (induction b p raw and b p cs rule: layout_layoutList.induct)
  case (1 b p ty sp ep tx he cs)
  let ?r = "b + sum_list (map countNodes cs)"
  from "1.prems"(1) have s: "seg H b (layoutList b (Some ?r) cs)"
    and c: "view (H ! ?r) = rawView (SyntaxNode ty sp ep tx he cs)"
    by (simp_all add: seg_append seg_single length_layout view_def rawView_def)
  from "1.IH"[OF s] c show ?case by simp
next
  case (2 b p)
  then show ?case by simp
next
  case (3 b p c cs)
  from "3.prems"(1) have s1: "seg H b (layout b p c)"
    and s2: "seg H (b + countNodes c) (layoutList (b + countNodes c) p cs)"
    by (simp_all add: seg_append length_layout)
  from "3.IH"(1)[OF s1] "3.IH"(2)[OF s2] show ?case by simp
qed

lemma forEachOpt_preorder_acc:
  assumes "\<And>c acc. preorder k h c acc = map_option ((@) acc) (preorder k h c [])"
  shows "forEachOpt (\<lambda>c res. preorder k h c res) cs acc
           = map_option ((@) acc) (forEachOpt (\<lambda>c res. preorder k h c res) cs [])"
proof (induction cs arbitrary: acc)
  case Nil
  then show ?case by simp
next
  case (Cons c cs)
  show ?case
  proof (cases "preorder k h c []")
    case None
    then show ?thesis using assms[of c acc] assms[of c "[]"] by simp
  next
    case (Some xs)
    then have "preorder k h c acc = Some (acc @ xs)" using assms[of c acc] by simp
    then show ?thesis
      using Some Cons.IH[of "acc @ xs"] Cons.IH[of xs]
      by (cases "forEachOpt (\<lambda>c res. preorder k h c res) cs []") simp_all
  qed
qed

lemma preorder_acc: "preorder k h n acc = map_option ((@) acc) (preorder k h n [])"
proof (induction k arbitrary: n acc)
  case 0
  then show ?case by simp
next
  case (Suc k)
  have a: "forEachOpt (\<lambda>c res. preorder k h c res) cs acc
           = map_option ((@) acc) (forEachOpt (\<lambda>c res. preorder k h c res) cs [])" for cs acc
    by (rule forEachOpt_preorder_acc) (rule Suc.IH)
  show ?case
    using a[of "children (h ! n)" "acc @ [n]"] a[of "children (h ! n)" "[n]"]
    by (cases "forEachOpt (\<lambda>c res. preorder k h c res) (children (h ! n)) []") simp_all
qed

lemma forEachOpt_traverse:
  assumes "\<And>c acc. traverse k h ty c acc
             = map_option (\<lambda>xs. acc @ filter (\<lambda>a. type (h ! a) = ty) xs) (preorder k h c [])"
  shows "forEachOpt (\<lambda>c res. traverse k h ty c res) cs acc
           = map_option (\<lambda>xs. acc @ filter (\<lambda>a. type (h ! a) = ty) xs)
               (forEachOpt (\<lambda>c res. preorder k h c res) cs [])"
proof (induction cs arbitrary: acc)
  case Nil
  then show ?case by simp
next
  case (Cons c cs)
  show ?case
  proof (cases "preorder k h c []")
    case None
    then show ?thesis using assms[of c acc] by simp
  next
    case (Some xs)
    have p: "forEachOpt (\<lambda>c res. preorder k h c res) cs xs
           = map_option ((@) xs) (forEachOpt (\<lambda>c res. preorder k h c res) cs [])"
      by (rule forEachOpt_preorder_acc) (rule preorder_acc)
    from Some have "traverse k h ty c acc = Some (acc @ filter (\<lambda>a. type (h ! a) = ty) xs)"
      using assms[of c acc] by simp
    then show ?thesis
      using Some p Cons.IH[of "acc @ filter (\<lambda>a. type (h ! a) = ty) xs"]
      by (cases "forEachOpt (\<lambda>c res. preorder k h c res) cs []") simp_all
  qed
qed

lemma traverse_preorder:
  "traverse k h ty n acc
     = map_option (\<lambda>xs. acc @ filter (\<lambda>a. type (h ! a) = ty) xs) (preorder k h n [])"
proof (induction k arbitrary: n acc)
  case 0
  then show ?case by simp
next
  case (Suc k)
  let ?P = "\<lambda>a. type (h ! a) = ty"
  let ?acc = "if type (h ! n) = ty then acc @ [n] else acc"
  have t: "forEachOpt (\<lambda>c res. traverse k h ty c res) (children (h ! n)) ?acc
           = map_option (\<lambda>xs. ?acc @ filter ?P xs)
               (forEachOpt (\<lambda>c res. preorder k h c res) (children (h ! n)) [])"
    by (rule forEachOpt_traverse) (rule Suc.IH)
  have p: "forEachOpt (\<lambda>c res. preorder k h c res) (children (h ! n)) [n]
           = map_option ((@) [n]) (forEachOpt (\<lambda>c res. preorder k h c res) (children (h ! n)) [])"
    by (rule forEachOpt_preorder_acc) (rule preorder_acc)
  show ?case
    using t p
    by (cases "forEachOpt (\<lambda>c res. preorder k h c res) (children (h ! n)) []") simp_all
qed

lemma converted:
  assumes "convertNode raw src h0 = (r, h)"
  shows "r = length h0 + countNodes raw - 1" and "h = h0 @ layout (length h0) None raw"
    and "seg h (length h0) (layout (length h0) None raw)"
    and "length h = length h0 + countNodes raw"
proof -
  from assms show r: "r = length h0 + countNodes raw - 1"
    and h: "h = h0 @ layout (length h0) None raw"
    by (simp_all add: convert_layout)
  show "seg h (length h0) (layout (length h0) None raw)"
    unfolding h by (rule seg_self)
  show "length h = length h0 + countNodes raw"
    unfolding h by (simp add: length_layout)
qed

lemma ancestor_above:
  assumes "seg H b (layout b None raw)" and "ancestor H a n"
  shows "b \<le> n \<Longrightarrow> n < b + countNodes raw \<Longrightarrow> n < a \<and> a < b + countNodes raw"
  using assms(2)
proof (induction rule: ancestor.induct)
  case (direct n p)
  from parent_layout(1)[OF assms(1) direct.prems] direct.hyps show ?case by auto
next
  case (further n p a)
  from parent_layout(1)[OF assms(1) further.prems] further.hyps(1)
  have "n < p" and "p < b + countNodes raw" by auto
  with further.IH further.prems show ?case by simp
qed

lemma ascend_returns:
  assumes "seg H b (layout b None raw)"
  shows "b \<le> m \<Longrightarrow> m < b + countNodes raw \<Longrightarrow> \<exists>ds. ascend H (Some m) acc = Some ds"
proof (induction "b + countNodes raw - m" arbitrary: m acc rule: less_induct)
  case less
  show ?case
  proof (cases "type (H ! m) = ''decorated_definition''")
    case False
    then show ?thesis by (simp add: ascend.simps[of H "Some m"])
  next
    case True
    let ?acc = "acc @ map (\<lambda>d. text' (H ! d))
                        (filter (\<lambda>d. type (H ! d) = ''decorator'') (children (H ! m)))"
    have step: "ascend H (Some m) acc = ascend H (parent (H ! m)) ?acc"
      using True by (simp add: ascend.simps[of H "Some m"])
    from parent_layout(1)[OF assms less.prems]
    consider "parent (H ! m) = None"
      | q where "parent (H ! m) = Some q" "m < q" "q < b + countNodes raw"
      by auto
    then show ?thesis
    proof cases
      case 1
      then show ?thesis using step by (simp add: ascend.simps[of H None])
    next
      case 2
      have "b + countNodes raw - q < b + countNodes raw - m" using 2 less.prems by simp
      moreover have "b \<le> q" using 2 less.prems by simp
      ultimately have "\<exists>ds. ascend H (Some q) ?acc = Some ds"
        using less.hyps 2(3) by blast
      then show ?thesis using step 2(1) by simp
    qed
  qed
qed

lemma ascend_selfParent:
  assumes "ascend h cur acc = Some y"
  shows "\<not> (h = selfParent \<and> cur = Some 0)"
proof (rule ascend.raw_induct[where P = "\<lambda>h cur acc y. \<not> (h = selfParent \<and> cur = Some 0)",
      OF _ assms])
  fix f :: "heap \<Rightarrow> ref option \<Rightarrow> string list \<Rightarrow> string list option"
  fix h cur acc y
  assume IH: "\<And>h cur acc y. f h cur acc = Some y \<Longrightarrow> \<not> (h = selfParent \<and> cur = Some 0)"
  assume eq: "(case cur of
        None \<Rightarrow> Some acc
      | Some c \<Rightarrow>
          if type (h ! c) = ''decorated_definition'' then
            (let decoratorNodes = filter (\<lambda>d. type (h ! d) = ''decorator'') (children (h ! c))
             in f h (parent (h ! c)) (acc @ map (\<lambda>d. text' (h ! d)) decoratorNodes))
          else Some acc) = Some y"
  show "\<not> (h = selfParent \<and> cur = Some 0)"
  proof
    assume a: "h = selfParent \<and> cur = Some 0"
    with eq have "f selfParent (Some 0) acc = Some y" by (simp add: selfParent_def)
    from IH[OF this] show False by simp
  qed
qed

section \<open>The example stores, cell by cell\<close>

lemma nestedStore_cells: "nestedStore =
  [\<lparr>type = ''decorator'', startPosition = pos 0 0, endPosition = pos 0 2, text' = ''@a'',
     children = [], parent = Some 9\<rparr>,
   \<lparr>type = ''decorator'', startPosition = pos 1 0, endPosition = pos 1 2, text' = ''@b'',
     children = [], parent = Some 8\<rparr>,
   \<lparr>type = ''def'', startPosition = pos 2 0, endPosition = pos 2 3, text' = ''def'',
     children = [], parent = Some 7\<rparr>,
   \<lparr>type = ''identifier'', startPosition = pos 2 4, endPosition = pos 2 5, text' = ''f'',
     children = [], parent = Some 7\<rparr>,
   \<lparr>type = ''parameters'', startPosition = pos 2 5, endPosition = pos 2 7, text' = ''()'',
     children = [], parent = Some 7\<rparr>,
   \<lparr>type = '':'', startPosition = pos 2 7, endPosition = pos 2 8, text' = '':'',
     children = [], parent = Some 7\<rparr>,
   \<lparr>type = ''block'', startPosition = pos 2 10, endPosition = pos 2 14, text' = ''pass'',
     children = [], parent = Some 7\<rparr>,
   \<lparr>type = ''function_definition'', startPosition = pos 2 0, endPosition = pos 2 14,
     text' = ''def f(): pass'', children = [2, 3, 4, 5, 6], parent = Some 8\<rparr>,
   \<lparr>type = ''decorated_definition'', startPosition = pos 1 0, endPosition = pos 2 14,
     text' = ''@b def f(): pass'', children = [1, 7], parent = Some 9\<rparr>,
   \<lparr>type = ''decorated_definition'', startPosition = pos 0 0, endPosition = pos 2 14,
     text' = ''@a @b def f(): pass'', children = [0, 8], parent = Some 10\<rparr>,
   \<lparr>type = ''module'', startPosition = pos 0 0, endPosition = pos 2 14,
     text' = ''@a @b def f(): pass'', children = [9], parent = None\<rparr>]"
  unfolding nestedStore_def by (simp add: convert_layout nestedDecorated_def leaf_def)

lemma nestedDecorated_count: "countNodes nestedDecorated = 11"
  by (simp add: nestedDecorated_def leaf_def)

lemma nestedDecorated_converted: "convertNode nestedDecorated '''' [] = (10, nestedStore)"
  unfolding nestedStore_def by (simp add: convert_layout nestedDecorated_count)

lemma nestedStore_length: "length nestedStore = 11"
  unfolding nestedStore_cells by simp

section \<open>Decorator ascent and error collection\<close>

lemma ascend_chain:
  "wrapperChain h cur ws \<Longrightarrow>
     ascend h cur acc = Some (acc @ concat (map (decoratorTexts h) ws))"
proof (induction ws arbitrary: cur acc)
  case Nil
  show ?case
  proof (cases cur)
    case None
    then show ?thesis by (simp add: ascend.simps[of h None])
  next
    case (Some c)
    with Nil show ?thesis by (simp add: ascend.simps[of h "Some c"])
  qed
next
  case (Cons w ws)
  then have c: "cur = Some w" and t: "type (h ! w) = ''decorated_definition''"
    and rest: "wrapperChain h (parent (h ! w)) ws"
    by simp_all
  have "ascend h cur acc = ascend h (parent (h ! w)) (acc @ decoratorTexts h w)"
    using c t by (simp add: ascend.simps[of h "Some w"] decoratorTexts_def)
  also have "\<dots> = Some ((acc @ decoratorTexts h w) @ concat (map (decoratorTexts h) ws))"
    by (rule Cons.IH[OF rest])
  finally show ?case by simp
qed

lemma fold_collectErrors:
  assumes "\<And>c errs. c \<in> set cs \<Longrightarrow> collectErrors c src errs = errs @ map syntaxError (reported c)"
  shows "fold (\<lambda>child. collectErrors child src) cs errs
           = errs @ map syntaxError (concat (map reported cs))"
  using assms by (induction cs arbitrary: errs) simp_all

lemma collectErrors_reported:
  "collectErrors node src errs = errs @ map syntaxError (reported node)"
proof (induction node arbitrary: errs)
  case (SyntaxNode ty sp ep tx he cs)
  have "fold (\<lambda>child. collectErrors child src) cs e
          = e @ map syntaxError (concat (map reported cs))" for e
    by (rule fold_collectErrors) (rule SyntaxNode.IH)
  then show ?case by simp
qed

lemma isErrorNode_node [simp]:
  "isErrorNode (SyntaxNode ty sp ep tx he cs) = (ty = ''ERROR'')"
  by (simp add: isErrorNode_def)

lemma reported_flagged: "n \<in> set (reported node) \<Longrightarrow> isErrorNode n \<and> ts_hasError n"
  by (induction node) (auto split: if_splits)

lemma severity_syntaxError: "severity (syntaxError n) = Error"
  by (simp add: syntaxError_def)

subsection \<open>Runs on a bounded stack, and the flagged error nodes\<close>

lemma within_convert:
  "convertNodeWithin d raw src h
     = (if depth raw \<le> d then Inr (convertNode raw src h) else Inl RangeError)"
  "convertChildrenWithin d cs src h
     = (if depthList cs \<le> d then Inr (convertChildren cs src h) else Inl RangeError)"
proof (induction d raw src h and d cs src h rule: convertNodeWithin_convertChildrenWithin.induct)
  case (1 node src h)
  then show ?case by (cases node) simp
next
  case (2 d ty sp ep tx he cs src h)
  then show ?case by (simp add: Let_def split: prod.splits)
next
  case (3 d src h)
  then show ?case by simp
next
  case (4 d child rest src h)
  show ?case
  proof (cases "depth child \<le> d")
    case False
    with 4(1) show ?thesis by simp
  next
    case True
    obtain childNode h1 where c: "convertNode child src h = (childNode, h1)"
      by (cases "convertNode child src h")
    with True 4(1) have w: "convertNodeWithin d child src h = Inr (childNode, h1)" by simp
    from 4(2)[OF w refl]
    show ?thesis using w c True by (simp add: Let_def split: prod.splits)
  qed
qed

lemma forEachErr_collect:
  assumes "\<And>c e. c \<in> set cs \<Longrightarrow> collectErrorsWithin d c src e = Inr (collectErrors c src e)"
  shows "forEachErr (\<lambda>child e. collectErrorsWithin d child src e) cs errs
           = Inr (fold (\<lambda>child. collectErrors child src) cs errs)"
  using assms by (induction cs arbitrary: errs) simp_all

lemma depthList_member: "c \<in> set cs \<Longrightarrow> depth c \<le> depthList cs"
  by (induction cs) auto

lemma within_collect:
  "depth node \<le> d \<Longrightarrow> collectErrorsWithin d node src errs = Inr (collectErrors node src errs)"
proof (induction d arbitrary: node errs)
  case 0
  then show ?case by (cases node) simp
next
  case (Suc d)
  obtain ty sp ep tx he cs where n: "node = SyntaxNode ty sp ep tx he cs" by (cases node)
  have "collectErrorsWithin d c src e = Inr (collectErrors c src e)" if "c \<in> set cs" for c e
  proof -
    have "depth c \<le> d" using depthList_member[OF that] Suc.prems n by simp
    then show ?thesis by (rule Suc.IH)
  qed
  then have "forEachErr (\<lambda>child e. collectErrorsWithin d child src e) cs e
           = Inr (fold (\<lambda>child. collectErrors child src) cs e)" for e
    by (rule forEachErr_collect)
  then show ?case by (simp add: n)
qed

lemma unflagged_ancestor:
  "\<not> list_all ts_hasError anc \<Longrightarrow>
     filter (\<lambda>(a, n). isErrorNode n \<and> ts_hasError n \<and> list_all ts_hasError a)
       (withAncestors anc node) = []"
proof (induction node arbitrary: anc)
  case (SyntaxNode ty sp ep tx he cs)
  let ?P = "\<lambda>(a, n). isErrorNode n \<and> ts_hasError n \<and> list_all ts_hasError a"
  let ?N = "SyntaxNode ty sp ep tx he cs"
  have "filter ?P (withAncestors (anc @ [?N]) c) = []" if "c \<in> set cs" for c
    using SyntaxNode.IH[OF that, of "anc @ [?N]"] SyntaxNode.prems by simp
  then have "concat (map (\<lambda>c. filter ?P (withAncestors (anc @ [?N]) c)) cs) = []"
    by simp
  then show ?case using SyntaxNode.prems by (simp add: filter_concat comp_def)
qed

lemma reported_withAncestors:
  "list_all ts_hasError anc \<Longrightarrow>
     reported node
       = map snd (filter (\<lambda>(a, n). isErrorNode n \<and> ts_hasError n \<and> list_all ts_hasError a)
                    (withAncestors anc node))"
proof (induction node arbitrary: anc)
  case (SyntaxNode ty sp ep tx he cs)
  let ?P = "\<lambda>(a, n). isErrorNode n \<and> ts_hasError n \<and> list_all ts_hasError a"
  let ?N = "SyntaxNode ty sp ep tx he cs"
  show ?case
  proof (cases he)
    case False
    then have "\<not> list_all ts_hasError (anc @ [?N])" by simp
    then have "filter ?P (withAncestors (anc @ [?N]) c) = []" for c
      by (rule unflagged_ancestor)
    then have "concat (map (\<lambda>c. filter ?P (withAncestors (anc @ [?N]) c)) cs) = []"
      by simp
    then show ?thesis using False by (simp add: filter_concat comp_def)
  next
    case True
    then have a: "list_all ts_hasError (anc @ [?N])" using SyntaxNode.prems by simp
    have "map reported cs
            = map (\<lambda>c. map snd (filter ?P (withAncestors (anc @ [?N]) c))) cs"
      using SyntaxNode.IH[OF _ a] by simp
    then have "concat (map reported cs)
            = concat (map (\<lambda>c. map snd (filter ?P (withAncestors (anc @ [?N]) c))) cs)"
      by (rule arg_cong)
    also have "\<dots> = map snd (concat (map (\<lambda>c. filter ?P (withAncestors (anc @ [?N]) c)) cs))"
      by (simp add: map_concat comp_def)
    finally show ?thesis
      using True SyntaxNode.prems by (simp add: filter_concat comp_def)
  qed
qed

lemma reported_flaggedErrorNodes: "reported node = flaggedErrorNodes node"
  unfolding flaggedErrorNodes_def by (rule reported_withAncestors) simp

lemma withAncestors_nodes: "map snd (withAncestors anc node) = rawNodes node"
proof (induction node arbitrary: anc)
  case (SyntaxNode ty sp ep tx he cs)
  have "map (\<lambda>c. map snd (withAncestors (anc @ [SyntaxNode ty sp ep tx he cs]) c)) cs
          = map rawNodes cs"
    using SyntaxNode.IH by simp
  then have "concat (map (\<lambda>c. map snd (withAncestors (anc @ [SyntaxNode ty sp ep tx he cs]) c)) cs)
          = concat (map rawNodes cs)"
    by (rule arg_cong)
  then show ?case by (simp add: map_concat comp_def)
qed

lemma parse_closed_form:
  "parse parser stack sourceCode
     = (if depth (parser sourceCode) \<le> stack then
          Inr (\<lparr>ast = countNodes (parser sourceCode) - 1, language = PYTHON,
                errors = (if ts_hasError (parser sourceCode)
                          then map syntaxError (flaggedErrorNodes (parser sourceCode)) else []),
                source = sourceCode\<rparr>,
               layout 0 None (parser sourceCode))
        else Inl RangeError)"
  by (simp add: parse_def Let_def within_convert within_collect convert_layout
      collectErrors_reported reported_flaggedErrorNodes)

lemma depth_nested: "depth (nested n c) = n + 2"
  by (induction n arbitrary: c) (simp_all add: leaf_def Let_def)

lemma flagged_nested: "ts_hasError (nested n c)"
  by (cases n) simp_all

lemma parse_raises_beyond_stack:
  "stack < depth (parser sourceCode) \<Longrightarrow> parse parser stack sourceCode = Inl RangeError"
  by (simp add: parse_closed_form)

lemma parse_no_entry_without_flagged_error_node:
  "depth (parser sourceCode) \<le> stack \<Longrightarrow> flaggedErrorNodes (parser sourceCode) = [] \<Longrightarrow>
     \<exists>res h. parse parser stack sourceCode = Inr (res, h) \<and> errors res = []"
  by (simp add: parse_closed_form)

section \<open>Parameters and imports\<close>




lemma importsStore_layout: "importsStore = layout 0 None importsTree"
  by (simp add: importsStore_def convert_layout)

lemma classStore_layout: "classStore = layout 0 None classTree"
  by (simp add: classStore_def convert_layout)

lemma isDirectImport_fun: "isDirectImport h = (\<lambda>n. type (h ! n) = ''import_statement'')"
  by (rule ext) (simp add: isDirectImport_def)

lemma isFromImport_fun: "isFromImport h = (\<lambda>n. type (h ! n) = ''import_from_statement'')"
  by (rule ext) (simp add: isFromImport_def)

lemma orNull_not_empty: "orNull x \<noteq> Some []"
  by (cases x) auto

lemma orNull_id: "x \<noteq> Some [] \<Longrightarrow> orNull x = x"
  by (cases x) auto

lemma fold_invariant:
  assumes "\<And>x acc. P acc \<Longrightarrow> P (f x acc)" and "P acc"
  shows "P (fold f xs acc)"
  using assms(2) by (induction xs arbitrary: acc) (simp_all add: assms(1))

lemma importNames_alias: "x \<in> set (extractImportNames h l) \<Longrightarrow> n_alias x \<noteq> Some []"
proof (cases l)
  case None
  assume "x \<in> set (extractImportNames h l)"
  with None show ?thesis by (simp add: extractImportNames_def)
next
  case (Some r)
  assume x: "x \<in> set (extractImportNames h l)"
  have "\<forall>y\<in>set (extractImportNames h (Some r)). n_alias y \<noteq> Some []"
    unfolding extractImportNames_def option.case
    by (rule fold_invariant) (auto simp: Let_def orNull_not_empty)
  with x Some show ?thesis by blast
qed

lemma index_0: "index xs 0 = (case xs of [] \<Rightarrow> None | x # _ \<Rightarrow> Some x)"
  by (cases xs) (simp_all add: index_def)

lemma importOf_direct:
  assumes "type (h ! node) \<noteq> ''import_from_statement''"
  shows "i_type (importOf h node) = Import"
    and "i_module (importOf h node)
           = (case i_names (importOf h node) of [] \<Rightarrow> [] | x # _ \<Rightarrow> n_name x)"
    and "i_alias (importOf h node)
           = (case i_names (importOf h node) of [] \<Rightarrow> None | x # _ \<Rightarrow> n_alias x)"
proof -
  let ?names = "extractImportNames h (findChild h node (\<lambda>c. type c = ''import_list''))"
  have e: "importOf h node =
      \<lparr>i_type = Import, i_module = orElse (map_option n_name (index ?names 0)) [],
       i_names = ?names, i_alias = orNull (Option.bind (index ?names 0) n_alias),
       i_startLine = row (startPosition (h ! node))\<rparr>"
    using assms by (simp add: importOf_def Let_def)
  show "i_type (importOf h node) = Import" by (simp add: e)
  show "i_module (importOf h node)
           = (case i_names (importOf h node) of [] \<Rightarrow> [] | x # _ \<Rightarrow> n_name x)"
    by (cases ?names) (simp_all add: e index_0)
  show "i_alias (importOf h node)
           = (case i_names (importOf h node) of [] \<Rightarrow> None | x # _ \<Rightarrow> n_alias x)"
  proof (cases ?names)
    case Nil
    then show ?thesis by (simp add: e index_0)
  next
    case (Cons x xs)
    then have "x \<in> set ?names" by simp
    then have "orNull (n_alias x) = n_alias x"
      by (intro orNull_id importNames_alias)
    with Cons show ?thesis by (simp add: e index_0)
  qed
qed

lemma importOf_from:
  assumes "type (h ! node) = ''import_from_statement''"
  shows "i_type (importOf h node) = From"
    and "i_alias (importOf h node) = None"
    and "i_module (importOf h node)
           = (case List.find (\<lambda>c. type (h ! c) = ''dotted_name'' \<or> type (h ! c) = ''relative_import'')
                     (children (h ! node)) of
                None \<Rightarrow> [] | Some c \<Rightarrow> text' (h ! c))"
  using assms
  by (simp_all add: importOf_def Let_def findChild_def textOf_def split: option.split)

lemma findNodesByType_preorder:
  "findNodesByType k h root ty
     = map_option (filter (\<lambda>a. type (h ! a) = ty)) (preorder k h root [])"
  by (simp add: findNodesByType_def traverse_preorder)

lemma not_two_blocks:
  assumes "\<forall>x\<in>set I. P x" and "\<forall>x\<in>set F. \<not> P x" and "\<not> P f" and "P d"
  shows "I @ F \<noteq> A @ f # B @ d # C"
  using assms(1)
proof (induction I arbitrary: A)
  case Nil
  show ?case
  proof
    assume "[] @ F = A @ f # B @ d # C"
    then have "d \<in> set F" by simp
    with assms(2,4) show False by blast
  qed
next
  case (Cons x I)
  show ?case
  proof (cases A)
    case Nil
    with Cons.prems assms(3) show ?thesis by auto
  next
    case (Cons a A')
    with Cons.IH[of A'] Cons.prems show ?thesis by auto
  qed
qed

lemma importsTree_converted: "convertNode importsTree '''' [] = (21, importsStore)"
  unfolding importsStore_def by (simp add: convert_layout importsTree_def leaf_def)

lemma importsStore_imports: "extractImports 22 importsStore 21 = Some [importOne, fromPkg]"
  unfolding importsStore_layout
  by (simp add: importsTree_def leaf_def extractImports_def findNodesByType_def importOf_def
        extractImportNames_def findChild_def textOf_def index_def eval_nat_numeral pos_def
        importOne_def fromPkg_def)

text \<open>A method entry differs from the function entry of the same node in \<^verbatim>\<open>body\<close> only.\<close>

lemma methodOf_functionOf:
  "methodOf h node = map_option (\<lambda>f. f\<lparr>f_body := text' (h ! node)\<rparr>) (functionOf h node)"
  by (simp add: methodOf_def functionOf_def Let_def option.map_comp comp_def)

section \<open>The normalized tree\<close>

text \<open>
  Claim C1. Whatever the raw tree and the store \<open>h0\<close> it is converted on, \<^verbatim>\<open>convertNode\<close>
  allocates exactly one object per node of the raw tree and leaves the older objects as
  they were. The pre-order traversal of the result from its root returns, for every depth
  bound that is at least the number of nodes; it visits every new object once and no other
  object, and the kinds, spans and texts it meets are those of the raw tree in pre-order.
\<close>

theorem convertNode_mirrors_raw_tree:
  assumes "convertNode raw src h0 = (r, h)"
  shows "length h = length h0 + length (rawNodes raw)
       \<and> take (length h0) h = h0
       \<and> (\<exists>nodes. (\<forall>k\<ge>length (rawNodes raw). preorder k h r [] = Some nodes)
            \<and> distinct nodes \<and> set nodes = {length h0..<length h}
            \<and> map (\<lambda>a. view (h ! a)) nodes = map rawView (rawNodes raw))"
proof -
  note c = converted[OF assms]
  let ?nodes = "addrs (length h0) raw"
  have "preorder k h r [] = Some ?nodes" if "length (rawNodes raw) \<le> k" for k
    using preorder_layout(1)[OF c(3), of k "[]"] that c(1) by (simp add: length_rawNodes)
  moreover have "distinct ?nodes" by (rule distinct_addrs)
  moreover have "set ?nodes = {length h0..<length h}" using c(4) by (simp add: set_addrs)
  moreover have "map (\<lambda>a. view (h ! a)) ?nodes = map rawView (rawNodes raw)"
    by (rule view_layout(1)[OF c(3)])
  ultimately show ?thesis using c(2,4) by (auto simp: length_rawNodes)
qed

theorem convertNode_mirrors_raw_tree_witness:
  "convertNode nestedDecorated '''' [] = (10, nestedStore)
   \<and> length nestedStore = length ([] :: heap) + length (rawNodes nestedDecorated)
   \<and> preorder 11 nestedStore 10 [] = Some [10, 9, 0, 8, 1, 7, 2, 3, 4, 5, 6]
   \<and> map (\<lambda>a. view (nestedStore ! a)) [10, 9, 0, 8, 1, 7, 2, 3, 4, 5, 6]
       = map rawView (rawNodes nestedDecorated)"
proof -
  from convertNode_mirrors_raw_tree[OF nestedDecorated_converted]
  obtain nodes
    where len: "length nestedStore = length ([] :: heap) + length (rawNodes nestedDecorated)"
    and run: "\<forall>k\<ge>length (rawNodes nestedDecorated). preorder k nestedStore 10 [] = Some nodes"
    and same: "map (\<lambda>a. view (nestedStore ! a)) nodes = map rawView (rawNodes nestedDecorated)"
    by blast
  have "length (rawNodes nestedDecorated) = 11"
    by (simp add: length_rawNodes nestedDecorated_count)
  with run have "preorder 11 nestedStore 10 [] = Some nodes" by simp
  moreover have order: "preorder 11 nestedStore 10 [] = Some [10, 9, 0, 8, 1, 7, 2, 3, 4, 5, 6]"
    unfolding nestedStore_cells by (simp add: eval_nat_numeral)
  ultimately have "nodes = [10, 9, 0, 8, 1, 7, 2, 3, 4, 5, 6]" by simp
  with len same nestedDecorated_converted order show ?thesis by simp
qed

text \<open>
  Claim C2. In the tree that \<^verbatim>\<open>convertNode\<close> returns, the root has no parent, every other
  node \<open>n\<close> of the tree has a parent that is a node of the tree and whose \<^verbatim>\<open>children\<close>
  hold the reference \<open>n\<close> itself, and no node is reached from itself by \<^verbatim>\<open>parent\<close> steps.
\<close>

theorem convertNode_parent_links:
  assumes "convertNode raw src h0 = (r, h)" and "length h0 \<le> n" and "n < length h"
  shows "parent (h ! r) = None
       \<and> (n \<noteq> r \<longrightarrow> (\<exists>p. parent (h ! n) = Some p \<and> length h0 \<le> p \<and> p < length h
                         \<and> n \<in> set (children (h ! p))))
       \<and> \<not> ancestor h n n"
proof -
  note c = converted[OF assms(1)]
  have n: "n < length h0 + countNodes raw" using assms(3) c(4) by simp
  have pos: "0 < countNodes raw" by (rule countNodes_pos)
  have lo: "length h0 \<le> r" and hi: "r < length h0 + countNodes raw"
    using c(1) pos by simp_all
  have "parent (h ! r) = None"
    using parent_layout(1)[OF c(3) lo hi] c(1) by auto
  moreover have "\<exists>p. parent (h ! n) = Some p \<and> length h0 \<le> p \<and> p < length h
                    \<and> n \<in> set (children (h ! p))" if "n \<noteq> r"
    using parent_layout(1)[OF c(3) assms(2) n] that c(1,4) assms(2) by auto
  moreover have "\<not> ancestor h n n"
    using ancestor_above[OF c(3) _ assms(2) n, of n] by auto
  ultimately show ?thesis by blast
qed

theorem convertNode_parent_links_witness:
  "convertNode nestedDecorated '''' [] = (10, nestedStore)
   \<and> parent (nestedStore ! 10) = None
   \<and> (\<exists>p. parent (nestedStore ! 7) = Some p \<and> p < length nestedStore
           \<and> 7 \<in> set (children (nestedStore ! p)))
   \<and> \<not> ancestor nestedStore 7 7"
proof -
  have "length ([] :: heap) \<le> 7" and "7 < length nestedStore"
    by (simp_all add: nestedStore_length)
  from convertNode_parent_links[OF nestedDecorated_converted this]
  show ?thesis using nestedDecorated_converted by auto
qed

text \<open>
  Claim C10. For every node of a tree built by \<^verbatim>\<open>convertNode\<close> the ascent of
  \<^verbatim>\<open>extractDecorators\<close> returns. Nothing in the loop bounds the ascent: on a store where a
  wrapper is its own parent it does not return.
\<close>

theorem extractDecorators_terminates:
  "(convertNode raw src h0 = (r, h) \<and> length h0 \<le> n \<and> n < length h
      \<longrightarrow> (\<exists>ds. extractDecorators h n = Some ds))
   \<and> extractDecorators selfParent 0 = None"
proof -
  have "\<exists>ds. extractDecorators h n = Some ds"
    if a: "convertNode raw src h0 = (r, h)" and lo: "length h0 \<le> n" and hi: "n < length h"
  proof -
    note c = converted[OF a]
    have n: "n < length h0 + countNodes raw" using hi c(4) by simp
    from parent_layout(1)[OF c(3) lo n]
    consider "parent (h ! n) = None"
      | q where "parent (h ! n) = Some q" "n < q" "q < length h0 + countNodes raw"
      by auto
    then show ?thesis
    proof cases
      case 1
      then show ?thesis by (simp add: extractDecorators_def ascend.simps[of h None])
    next
      case 2
      then have "length h0 \<le> q" using lo by simp
      from ascend_returns[OF c(3) this 2(3), of "[]"] 2(1) show ?thesis
        by (simp add: extractDecorators_def)
    qed
  qed
  moreover have "extractDecorators selfParent 0 = None"
  proof (cases "extractDecorators selfParent 0")
    case None
    then show ?thesis .
  next
    case (Some y)
    then have "ascend selfParent (Some 0) [] = Some y"
      by (simp add: extractDecorators_def selfParent_def)
    from ascend_selfParent[OF this] show ?thesis by simp
  qed
  ultimately show ?thesis by blast
qed

theorem extractDecorators_terminates_witness:
  "convertNode nestedDecorated '''' [] = (10, nestedStore)
   \<and> length ([] :: heap) \<le> 7 \<and> 7 < length nestedStore
   \<and> (\<exists>ds. extractDecorators nestedStore 7 = Some ds)"
proof -
  have "length ([] :: heap) \<le> 7" and "7 < length nestedStore"
    by (simp_all add: nestedStore_length)
  with extractDecorators_terminates[of nestedDecorated "''''" "[]" 10 nestedStore 7]
    nestedDecorated_converted
  show ?thesis by blast
qed

section \<open>Decorators of a definition\<close>

text \<open>
  Claim C8. \<^verbatim>\<open>extractDecorators\<close> ascends from the parent of the given node as long as
  the current ancestor is a wrapper, and appends the texts of the decorator children of
  each wrapper it passes: for wrappers \<open>ws\<close> listed from the innermost outward the result
  is the decorators of the first, then of the second, and so on. A node whose parent is
  absent or is not a wrapper has no decorators.
\<close>

theorem extractDecorators_innermost_first:
  "(wrapperChain h (parent (h ! node)) ws \<longrightarrow>
      extractDecorators h node = Some (concat (map (decoratorTexts h) ws)))
   \<and> ((\<forall>p. parent (h ! node) = Some p \<longrightarrow> type (h ! p) \<noteq> ''decorated_definition'') \<longrightarrow>
      extractDecorators h node = Some [])"
proof (intro conjI impI)
  assume "wrapperChain h (parent (h ! node)) ws"
  from ascend_chain[OF this, of "[]"]
  show "extractDecorators h node = Some (concat (map (decoratorTexts h) ws))"
    by (simp add: extractDecorators_def)
next
  assume "\<forall>p. parent (h ! node) = Some p \<longrightarrow> type (h ! p) \<noteq> ''decorated_definition''"
  then have "wrapperChain h (parent (h ! node)) []"
    by (cases "parent (h ! node)") simp_all
  from ascend_chain[OF this, of "[]"]
  show "extractDecorators h node = Some []"
    by (simp add: extractDecorators_def)
qed

theorem extractDecorators_innermost_first_witness:
  "wrapperChain nestedStore (parent (nestedStore ! 7)) [8, 9]
   \<and> decoratorTexts nestedStore 8 = [''@b''] \<and> decoratorTexts nestedStore 9 = [''@a'']
   \<and> extractDecorators nestedStore 7 = Some [''@b'', ''@a'']
   \<and> parent (nestedStore ! 9) = Some 10 \<and> type (nestedStore ! 10) = ''module''
   \<and> extractDecorators nestedStore 9 = Some []"
proof -
  have chain: "wrapperChain nestedStore (parent (nestedStore ! 7)) [8, 9]"
    unfolding nestedStore_cells by simp
  have texts: "decoratorTexts nestedStore 8 = [''@b'']" "decoratorTexts nestedStore 9 = [''@a'']"
    unfolding nestedStore_cells by (simp_all add: decoratorTexts_def)
  have top: "parent (nestedStore ! 9) = Some 10" "type (nestedStore ! 10) = ''module''"
    unfolding nestedStore_cells by simp_all
  then have "\<forall>p. parent (nestedStore ! 9) = Some p \<longrightarrow> type (nestedStore ! p) \<noteq> ''decorated_definition''"
    by simp
  with extractDecorators_innermost_first[of nestedStore 7 "[8, 9]"]
    extractDecorators_innermost_first[of nestedStore 9 "[]"] chain texts top
  show ?thesis by simp
qed

section \<open>Syntax diagnostics\<close>

text \<open>
  Claim C4, as stated, fails: a node of kind \<^verbatim>\<open>ERROR\<close> gets an entry only if
  \<^verbatim>\<open>hasError()\<close> answers true for it. In \<open>unflaggedLeaf\<close> two nodes have kind
  \<^verbatim>\<open>ERROR\<close>, the inner one is not flagged, and \<^verbatim>\<open>collectErrors\<close> emits one entry.
\<close>

theorem collectErrors_skips_unflagged_error_node:
  "map rawView (filter isErrorNode (rawNodes unflaggedLeaf))
     = [(''ERROR'', pos 0 0, pos 0 3, ''a ?''), (''ERROR'', pos 0 2, pos 0 3, ''?'')]
   \<and> collectErrors unflaggedLeaf '''' []
       = [\<lparr>message = ''Syntax error at 0:0'', position = pos 0 0, severity = Error\<rparr>]"
  by (simp add: unflaggedLeaf_def leaf_def rawView_def syntaxError_def pos_def
      showNat.simps digit_def)

text \<open>
  Claim C4, amended. \<^verbatim>\<open>collectErrors\<close> appends exactly one entry for each node of kind
  \<^verbatim>\<open>ERROR\<close> that is flagged and has only flagged ancestors up to the node it is called
  on, in pre-order (\<open>withAncestors\<close> lists every node of the tree once, in pre-order).
  The entry has the message \<^verbatim>\<open>Syntax error at <row>:<column>\<close>, the node's start
  position and severity \<^verbatim>\<open>error\<close>. For a node that is not flagged nothing is emitted,
  whatever lies below it.
\<close>

theorem collectErrors_reports_flagged_error_nodes:
  "collectErrors node src errs = errs @ map syntaxError (flaggedErrorNodes node)
   \<and> map snd (withAncestors [] node) = rawNodes node
   \<and> set (flaggedErrorNodes node) \<subseteq> set (rawNodes node)
   \<and> (\<forall>n\<in>set (flaggedErrorNodes node).
         ts_type n = ''ERROR'' \<and> ts_hasError n
         \<and> message (syntaxError n)
             = ''Syntax error at '' @ showNat (row (ts_startPosition n)) @ '':''
                 @ showNat (column (ts_startPosition n))
         \<and> position (syntaxError n) = ts_startPosition n
         \<and> severity (syntaxError n) = Error)
   \<and> (\<not> ts_hasError node \<longrightarrow> collectErrors node src errs = errs)"
proof (intro conjI ballI impI)
  show "collectErrors node src errs = errs @ map syntaxError (flaggedErrorNodes node)"
    by (simp add: collectErrors_reported reported_flaggedErrorNodes)
next
  show "map snd (withAncestors [] node) = rawNodes node" by (rule withAncestors_nodes)
next
  have "set (flaggedErrorNodes node) \<subseteq> set (map snd (withAncestors [] node))"
    unfolding flaggedErrorNodes_def by auto
  then show "set (flaggedErrorNodes node) \<subseteq> set (rawNodes node)"
    by (simp only: withAncestors_nodes)
next
  fix n assume "n \<in> set (flaggedErrorNodes node)"
  then have "n \<in> set (reported node)" by (simp add: reported_flaggedErrorNodes)
  from reported_flagged[OF this] show "ts_type n = ''ERROR''" and "ts_hasError n"
    by (simp_all add: isErrorNode_def)
next
  fix n
  show "message (syntaxError n)
          = ''Syntax error at '' @ showNat (row (ts_startPosition n)) @ '':''
              @ showNat (column (ts_startPosition n))"
    and "position (syntaxError n) = ts_startPosition n"
    and "severity (syntaxError n) = Error"
    by (simp_all add: syntaxError_def)
next
  assume "\<not> ts_hasError node"
  then show "collectErrors node src errs = errs" by (cases node) simp
qed

theorem collectErrors_reports_flagged_error_nodes_witness:
  "map rawView (flaggedErrorNodes brokenCall)
     = [(''ERROR'', pos 0 0, pos 0 5, ''x = (''), (''ERROR'', pos 1 12, pos 1 15, ''= )'')]
   \<and> collectErrors brokenCall '''' []
       = [\<lparr>message = ''Syntax error at 0:0'', position = pos 0 0, severity = Error\<rparr>,
          \<lparr>message = ''Syntax error at 1:12'', position = pos 1 12, severity = Error\<rparr>]
   \<and> map rawView (flaggedErrorNodes unflaggedLeaf) = [(''ERROR'', pos 0 0, pos 0 3, ''a ?'')]
   \<and> \<not> ts_hasError (leaf ''ERROR'' (pos 0 2) (pos 0 3) ''?'')
   \<and> collectErrors (leaf ''ERROR'' (pos 0 2) (pos 0 3) ''?'') '''' [] = []"
proof -
  have b: "flaggedErrorNodes brokenCall
      = [SyntaxNode ''ERROR'' (pos 0 0) (pos 0 5) ''x = ('' True
          [leaf ''identifier'' (pos 0 0) (pos 0 1) ''x'',
           leaf ''='' (pos 0 2) (pos 0 3) ''='',
           leaf ''('' (pos 0 4) (pos 0 5) ''(''],
         SyntaxNode ''ERROR'' (pos 1 12) (pos 1 15) ''= )'' True
          [leaf ''='' (pos 1 12) (pos 1 13) ''='',
           leaf '')'' (pos 1 14) (pos 1 15) '')'']]"
    by (simp add: flaggedErrorNodes_def brokenCall_def leaf_def isErrorNode_def)
  have u: "map rawView (flaggedErrorNodes unflaggedLeaf) = [(''ERROR'', pos 0 0, pos 0 3, ''a ?'')]"
    by (simp add: flaggedErrorNodes_def unflaggedLeaf_def leaf_def isErrorNode_def rawView_def)
  have off: "\<not> ts_hasError (leaf ''ERROR'' (pos 0 2) (pos 0 3) ''?'')"
    by (simp add: leaf_def)
  from collectErrors_reports_flagged_error_nodes[of brokenCall "''''" "[]"]
  have "collectErrors brokenCall '''' [] = map syntaxError (flaggedErrorNodes brokenCall)"
    by simp
  also have "\<dots> = [\<lparr>message = ''Syntax error at 0:0'', position = pos 0 0, severity = Error\<rparr>,
          \<lparr>message = ''Syntax error at 1:12'', position = pos 1 12, severity = Error\<rparr>]"
    unfolding b by (simp add: syntaxError_def pos_def showNat.simps digit_def)
  finally have errs: "collectErrors brokenCall '''' []
       = [\<lparr>message = ''Syntax error at 0:0'', position = pos 0 0, severity = Error\<rparr>,
          \<lparr>message = ''Syntax error at 1:12'', position = pos 1 12, severity = Error\<rparr>]" .
  from collectErrors_reports_flagged_error_nodes[of "leaf ''ERROR'' (pos 0 2) (pos 0 3) ''?''" "''''" "[]"] off
  have "collectErrors (leaf ''ERROR'' (pos 0 2) (pos 0 3) ''?'') '''' [] = []" by blast
  with errs u off show ?thesis by (simp add: b rawView_def)
qed

text \<open>
  Claim C3, as stated, fails: \<^verbatim>\<open>parse\<close> can raise. On a stack with room for 10000
  nested calls, the flagged tree \<open>nested 10000 0\<close>, which nests 10002 deep and holds a
  flagged node of kind \<^verbatim>\<open>ERROR\<close>, ends \<^verbatim>\<open>parse\<close> with \<^verbatim>\<open>RangeError\<close>; the same holds for
  every stack and every tree that nests deeper than it (\<open>parse_raises_beyond_stack\<close>).
\<close>

theorem parse_raises_on_deep_flagged_tree:
  "ts_hasError (nested 10000 0)
   \<and> flaggedErrorNodes (nested 10000 0) \<noteq> []
   \<and> parse (\<lambda>sourceCode. nested 10000 0) 10000 (ts_text (nested 10000 0)) = Inl RangeError"
proof -
  have "ts_hasError (nested 10000 0)" by (rule flagged_nested)
  moreover have "flaggedErrorNodes (nested n c) \<noteq> []" for n c
  proof -
    have "reported (nested n c) \<noteq> []"
      by (induction n arbitrary: c) (simp_all add: leaf_def)
    then show ?thesis by (simp add: reported_flaggedErrorNodes)
  qed
  moreover have "parse (\<lambda>sourceCode. nested 10000 0) 10000 (ts_text (nested 10000 0)) = Inl RangeError"
    by (rule parse_raises_beyond_stack) (simp add: depth_nested)
  ultimately show ?thesis by blast
qed

text \<open>
  Claim C3, amended. When the raw tree nests no deeper than the call stack has room for,
  its root is flagged, and at least one of its nodes of kind \<^verbatim>\<open>ERROR\<close> is flagged and has
  only flagged ancestors, \<^verbatim>\<open>parse\<close> does not raise and returns a result whose root is an
  object of the store mirroring the raw root, with at least one diagnostic, all of
  severity \<^verbatim>\<open>error\<close>. The last condition cannot be dropped: without such a node the
  result has no diagnostics (\<open>parse_no_entry_without_flagged_error_node\<close>).
\<close>

theorem parse_reports_error_nodes:
  assumes "depth (parser sourceCode) \<le> stack"
    and "ts_hasError (parser sourceCode)"
    and "flaggedErrorNodes (parser sourceCode) \<noteq> []"
  shows "\<exists>res h. parse parser stack sourceCode = Inr (res, h)
            \<and> ast res < length h
            \<and> view (h ! ast res) = rawView (parser sourceCode)
            \<and> errors res \<noteq> []
            \<and> (\<forall>e\<in>set (errors res). severity e = Error)"
proof -
  let ?root = "parser sourceCode"
  let ?h = "layout 0 None ?root"
  let ?r = "countNodes ?root - 1"
  let ?errs = "map syntaxError (flaggedErrorNodes ?root)"
  have p: "parse parser stack sourceCode
      = Inr (\<lparr>ast = ?r, language = PYTHON, errors = ?errs, source = sourceCode\<rparr>, ?h)"
    using assms(1,2) by (simp add: parse_closed_form)
  have s: "seg ?h 0 (layout 0 None ?root)"
    using seg_self[of "[]" "layout 0 None ?root"] by simp
  have pos: "0 < countNodes ?root" by (rule countNodes_pos)
  have "?r < length ?h" using pos by (simp add: length_layout)
  moreover have "view (?h ! ?r) = rawView ?root"
    using seg_root(2-5)[OF s] by (simp add: view_def rawView_def)
  moreover have "?errs \<noteq> []" using assms(3) by simp
  moreover have "\<forall>e\<in>set ?errs. severity e = Error"
    by (auto simp: severity_syntaxError)
  ultimately show ?thesis using p by simp
qed

theorem parse_reports_error_nodes_witness:
  "depth brokenCall \<le> 3 \<and> ts_hasError brokenCall \<and> flaggedErrorNodes brokenCall \<noteq> []
   \<and> (\<exists>res h. parse (\<lambda>sourceCode. brokenCall) 3 (ts_text brokenCall) = Inr (res, h)
        \<and> ast res = 9
        \<and> map message (errors res) = [''Syntax error at 0:0'', ''Syntax error at 1:12'']
        \<and> map severity (errors res) = [Error, Error])"
proof -
  have d: "depth brokenCall \<le> 3" and f: "ts_hasError brokenCall"
    by (simp_all add: brokenCall_def leaf_def)
  have n: "flaggedErrorNodes brokenCall \<noteq> []"
    by (simp add: flaggedErrorNodes_def brokenCall_def leaf_def isErrorNode_def)
  from parse_reports_error_nodes[of "\<lambda>sourceCode. brokenCall" "ts_text brokenCall" 3] d f n
  obtain res h where p: "parse (\<lambda>sourceCode. brokenCall) 3 (ts_text brokenCall) = Inr (res, h)"
    by auto
  have c: "countNodes brokenCall = 10" by (simp add: brokenCall_def leaf_def)
  have r: "ast res = 9" and e: "errors res = map syntaxError (flaggedErrorNodes brokenCall)"
    using p d f c by (auto simp: parse_closed_form)
  have "map message (map syntaxError (flaggedErrorNodes brokenCall))
          = [''Syntax error at 0:0'', ''Syntax error at 1:12'']"
    by (simp add: flaggedErrorNodes_def brokenCall_def leaf_def isErrorNode_def
        syntaxError_def pos_def showNat.simps digit_def)
  moreover have "map severity (map syntaxError (flaggedErrorNodes brokenCall)) = [Error, Error]"
    by (simp add: flaggedErrorNodes_def brokenCall_def leaf_def isErrorNode_def syntaxError_def)
  ultimately show ?thesis using d f n p r e by simp
qed

section \<open>Entities\<close>



text \<open>
  Claim C6. For every entity returned by \<^verbatim>\<open>extractImports\<close>: a direct import has the name
  of the first entry of its \<^verbatim>\<open>names\<close> as \<^verbatim>\<open>module\<close> and the alias of that entry as
  \<^verbatim>\<open>alias\<close> (the empty string and absent when there is no entry); a \<^verbatim>\<open>from\<close> import has
  no \<^verbatim>\<open>alias\<close>, and its \<^verbatim>\<open>module\<close> is the text of the first child of its statement of
  kind \<^verbatim>\<open>dotted_name\<close> or \<^verbatim>\<open>relative_import\<close> (the empty string when there is none).
\<close>

theorem extractImports_module_and_alias:
  assumes "extractImports k h root = Some es" and "e \<in> set es"
  shows "(i_type e = Import \<longrightarrow>
            i_module e = (case i_names e of [] \<Rightarrow> [] | x # _ \<Rightarrow> n_name x)
            \<and> i_alias e = (case i_names e of [] \<Rightarrow> None | x # _ \<Rightarrow> n_alias x))
       \<and> (i_type e = From \<longrightarrow>
            i_alias e = None
            \<and> (\<exists>node. type (h ! node) = ''import_from_statement'' \<and> e = importOf h node
                 \<and> i_module e
                     = (case List.find (\<lambda>c. type (h ! c) = ''dotted_name''
                                            \<or> type (h ! c) = ''relative_import'')
                               (children (h ! node)) of
                          None \<Rightarrow> [] | Some c \<Rightarrow> text' (h ! c))))"
proof -
  from assms obtain node where e: "e = importOf h node"
    by (auto simp: extractImports_def split: option.splits)
  show ?thesis
  proof (cases "type (h ! node) = ''import_from_statement''")
    case True
    from importOf_from[OF True] True e show ?thesis by auto
  next
    case False
    from importOf_direct[OF False] e show ?thesis by simp
  qed
qed

theorem extractImports_module_and_alias_witness:
  "extractImports 22 importsStore 21 = Some [importOne, fromPkg]
   \<and> i_type importOne = Import
   \<and> map n_name (i_names importOne) = [''one'', ''two'']
   \<and> i_module importOne = ''one'' \<and> i_alias importOne = Some ''uno''
   \<and> i_type fromPkg = From \<and> i_module fromPkg = ''pkg'' \<and> i_alias fromPkg = None"
proof -
  have "importOne \<in> set [importOne, fromPkg]" and "fromPkg \<in> set [importOne, fromPkg]"
    by simp_all
  from extractImports_module_and_alias[OF importsStore_imports this(1)]
    extractImports_module_and_alias[OF importsStore_imports this(2)]
  have "i_module importOne = (case i_names importOne of [] \<Rightarrow> [] | x # _ \<Rightarrow> n_name x)"
    and "i_alias importOne = (case i_names importOne of [] \<Rightarrow> None | x # _ \<Rightarrow> n_alias x)"
    and "i_alias fromPkg = None"
    by (simp_all add: importOne_def fromPkg_def)
  then show ?thesis
    using importsStore_imports by (simp add: importOne_def fromPkg_def)
qed

text \<open>
  Claim C9. On a tree built by \<^verbatim>\<open>convertNode\<close>, with a depth bound of at least the number
  of nodes, \<^verbatim>\<open>extractImports\<close> returns the entities of the direct imports in pre-order,
  followed by the entities of the \<^verbatim>\<open>from\<close> imports in pre-order. When a \<^verbatim>\<open>from\<close>
  import precedes a direct import in the tree, that is not the order of the statements.
\<close>

theorem extractImports_direct_before_from:
  assumes "convertNode raw src h0 = (root, h)" and "length (rawNodes raw) \<le> k"
  shows "\<exists>nodes. preorder k h root [] = Some nodes
       \<and> extractImports k h root
           = Some (map (importOf h) (filter (isDirectImport h) nodes)
                   @ map (importOf h) (filter (isFromImport h) nodes))
       \<and> (\<forall>n\<in>set (filter (isDirectImport h) nodes). i_type (importOf h n) = Import)
       \<and> (\<forall>n\<in>set (filter (isFromImport h) nodes). i_type (importOf h n) = From)
       \<and> ((\<exists>xs f ys d zs. nodes = xs @ f # ys @ d # zs \<and> isFromImport h f \<and> isDirectImport h d)
            \<longrightarrow> filter (isDirectImport h) nodes @ filter (isFromImport h) nodes
                 \<noteq> filter (\<lambda>n. isDirectImport h n \<or> isFromImport h n) nodes)"
proof -
  note c = converted[OF assms(1)]
  let ?nodes = "addrs (length h0) raw"
  let ?D = "isDirectImport h" and ?F = "isFromImport h"
  have p: "preorder k h root [] = Some ?nodes"
    using preorder_layout(1)[OF c(3), of k "[]"] assms(2) c(1) by (simp add: length_rawNodes)
  have "extractImports k h root
          = Some (map (importOf h) (filter ?D ?nodes) @ map (importOf h) (filter ?F ?nodes))"
    by (simp add: extractImports_def findNodesByType_preorder p isDirectImport_fun
        isFromImport_fun)
  moreover have "\<forall>n\<in>set (filter ?D ?nodes). i_type (importOf h n) = Import"
    by (auto simp: isDirectImport_def intro: importOf_direct(1))
  moreover have "\<forall>n\<in>set (filter ?F ?nodes). i_type (importOf h n) = From"
    by (auto simp: isFromImport_def intro: importOf_from(1))
  moreover have "filter ?D ?nodes @ filter ?F ?nodes \<noteq> filter (\<lambda>n. ?D n \<or> ?F n) ?nodes"
    if "\<exists>xs f ys d zs. ?nodes = xs @ f # ys @ d # zs \<and> ?F f \<and> ?D d"
  proof -
    from that obtain xs f ys d zs where n: "?nodes = xs @ f # ys @ d # zs"
      and f: "?F f" and d: "?D d" by blast
    have nf: "\<not> ?D f" using f by (simp add: isDirectImport_def isFromImport_def)
    have "filter (\<lambda>n. ?D n \<or> ?F n) ?nodes
            = filter (\<lambda>n. ?D n \<or> ?F n) xs @ f # filter (\<lambda>n. ?D n \<or> ?F n) ys
                @ d # filter (\<lambda>n. ?D n \<or> ?F n) zs"
      using f d by (simp add: n)
    moreover have "filter ?D ?nodes @ filter ?F ?nodes
            \<noteq> filter (\<lambda>n. ?D n \<or> ?F n) xs @ f # filter (\<lambda>n. ?D n \<or> ?F n) ys
                @ d # filter (\<lambda>n. ?D n \<or> ?F n) zs"
    proof (rule not_two_blocks[where P = ?D])
      show "\<forall>x\<in>set (filter ?D ?nodes). ?D x" by simp
      show "\<forall>x\<in>set (filter ?F ?nodes). \<not> ?D x"
        by (auto simp: isDirectImport_def isFromImport_def)
      show "\<not> ?D f" by (rule nf)
      show "?D d" by (rule d)
    qed
    ultimately show ?thesis by simp
  qed
  ultimately show ?thesis using p by blast
qed

theorem extractImports_direct_before_from_witness:
  "convertNode importsTree '''' [] = (21, importsStore)
   \<and> preorder 22 importsStore 21 []
       = Some [21, 11, 0, 2, 1, 3, 10, 7, 4, 5, 6, 8, 9, 20, 12, 19, 16, 13, 14, 15, 17, 18]
   \<and> isFromImport importsStore 11 \<and> isDirectImport importsStore 20
   \<and> extractImports 22 importsStore 21 = Some [importOf importsStore 20, importOf importsStore 11]
   \<and> importOf importsStore 20 = importOne \<and> importOf importsStore 11 = fromPkg
   \<and> i_startLine importOne = 1 \<and> i_startLine fromPkg = 0"
proof -
  let ?order = "[21, 11, 0, 2, 1, 3, 10, 7, 4, 5, 6, 8, 9, 20, 12, 19, 16, 13, 14, 15, 17, 18]"
  have "length (rawNodes importsTree) \<le> 22"
    by (simp add: length_rawNodes importsTree_def leaf_def)
  from extractImports_direct_before_from[OF importsTree_converted this]
  obtain nodes where p: "preorder 22 importsStore 21 [] = Some nodes"
    and e: "extractImports 22 importsStore 21
              = Some (map (importOf importsStore) (filter (isDirectImport importsStore) nodes)
                      @ map (importOf importsStore) (filter (isFromImport importsStore) nodes))"
    by blast
  have o: "preorder 22 importsStore 21 [] = Some ?order"
    unfolding importsStore_layout
    by (simp add: importsTree_def leaf_def eval_nat_numeral)
  with p have n: "nodes = ?order" by simp
  have d: "filter (isDirectImport importsStore) ?order = [20]"
    and f: "filter (isFromImport importsStore) ?order = [11]"
    unfolding importsStore_layout
    by (simp_all add: importsTree_def leaf_def isDirectImport_def isFromImport_def)
  have k: "isFromImport importsStore 11" "isDirectImport importsStore 20"
    unfolding importsStore_layout
    by (simp_all add: importsTree_def leaf_def isDirectImport_def isFromImport_def)
  have r: "extractImports 22 importsStore 21
             = Some [importOf importsStore 20, importOf importsStore 11]"
    using e unfolding n d f by simp
  with importsStore_imports
  have v: "importOf importsStore 20 = importOne" "importOf importsStore 11 = fromPkg"
    by simp_all
  show ?thesis
    using importsTree_converted o k r v by (simp add: importOne_def fromPkg_def)
qed

text \<open>
  Claim C5 fails on the code, at the class \<open>classTree\<close>: the \<^verbatim>\<open>methods\<close> that
  \<^verbatim>\<open>extractClasses\<close> reports carry the text of the whole definition as \<^verbatim>\<open>body\<close>, while
  \<^verbatim>\<open>extractFunctions\<close> on the class's block carries the text of the method's block.
\<close>

theorem extractMethods_body_is_whole_definition:
  "findChild classStore 15 (\<lambda>c. type c = ''block'') = Some 14
   \<and> map_option (map c_methods) (extractClasses 17 classStore 16)
       = Some [[\<lparr>f_name = ''m'',
                 f_parameters = [\<lparr>p_name = ''self'', p_type = None, p_defaultValue = None\<rparr>],
                 f_body = ''def m(self): pass'', f_startLine = 1, f_endLine = 1,
                 f_isAsync = False, f_decorators = []\<rparr>]]
   \<and> extractFunctions 17 classStore 14
       = Some [\<lparr>f_name = ''m'',
                f_parameters = [\<lparr>p_name = ''self'', p_type = None, p_defaultValue = None\<rparr>],
                f_body = ''pass'', f_startLine = 1, f_endLine = 1,
                f_isAsync = False, f_decorators = []\<rparr>]"
  unfolding classStore_layout
  by (simp add: classTree_def leaf_def extractClasses_def classOf_def extractMethods_def
        methodOf_def extractFunctions_def functionOf_def extractSuperclasses_def
        extractParameters_def extractDecorators_def ascend.simps findNodesByType_def
        findChild_def textOf_def index_def eval_nat_numeral pos_def)


end
